theory Spec2Isabelle
  imports Complex_Main "HOL-Library.Signed_Division"
begin

section \<open>JavaScript values\<close>

text \<open>
  The component of \<^verbatim>\<open>IsingModel.jsx\<close> keeps its lattice in a JavaScript array of arrays
  of numbers.  A JavaScript number is modelled as an exact real, plus \<^verbatim>\<open>NaN\<close>, which the
  source can produce by negating \<^verbatim>\<open>undefined\<close>.  Rounding of doubles is not modelled.
  An array slot is \<open>Some v\<close> when it holds the number \<open>v\<close> and \<open>None\<close> when it is a hole;
  reading a hole, or reading past the end, yields \<^verbatim>\<open>undefined\<close>.
\<close>

datatype jsnum = Num real | NaN

fun js_add :: "jsnum \<Rightarrow> jsnum \<Rightarrow> jsnum" where
  "js_add (Num a) (Num b) = Num (a + b)"
| "js_add _ _ = NaN"

fun js_mul :: "jsnum \<Rightarrow> jsnum \<Rightarrow> jsnum" where
  "js_mul (Num a) (Num b) = Num (a * b)"
| "js_mul _ _ = NaN"

type_synonym lattice = "jsnum option list list"

datatype error = TypeError

text \<open>\<^verbatim>\<open>grid[y]\<close>: the row, or \<^verbatim>\<open>undefined\<close> (\<open>None\<close>) outside the array.\<close>

definition row_at :: "'a list list \<Rightarrow> int \<Rightarrow> 'a list option" where
  "row_at g y = (if 0 \<le> y \<and> y < int (length g) then Some (g ! nat y) else None)"

text \<open>
  \<^verbatim>\<open>grid[y] && grid[y][x]\<close>: the guarded read the source uses everywhere; \<open>None\<close> stands for
  \<^verbatim>\<open>undefined\<close>, whether the row is missing, the index is outside the row, or the slot is a hole.
\<close>

definition slot_at :: "lattice \<Rightarrow> int \<Rightarrow> int \<Rightarrow> jsnum option" where
  "slot_at g y x =
     (case row_at g y of
        None \<Rightarrow> None
      | Some row \<Rightarrow> if 0 \<le> x \<and> x < int (length row) then row ! nat x else None)"

section \<open>Component state\<close>

text \<open>
  The \<^verbatim>\<open>useState\<close> variables the simulation engine reads or writes.  The field \<open>size_n\<close> is
  the source's \<^verbatim>\<open>size\<close>.  The drawing, recording and canvas variables are presentation
  state and are left out.
\<close>

record state =
  grid :: lattice
  size_n :: nat
  temperature :: real
  coupling :: real
  externalField :: real
  magnetization :: jsnum
  isPlaying :: bool
  magnetizationHistory :: "jsnum list"
  annealingRate :: real
  drawMode :: string
  initialPattern :: string
  gridInitialized :: bool
  simulationSpeed :: real

text \<open>
  The check that opens \<^verbatim>\<open>calculateDeltaE\<close>, \<^verbatim>\<open>flipSpinsInRadius\<close>, \<^verbatim>\<open>evolveSystem\<close> and the
  magnetization effect:
  \<^verbatim>\<open>!gridInitialized || !grid.length || grid.length !== size || !grid[0] || grid[0].length !== size\<close>.
\<close>

definition grid_not_ready :: "state \<Rightarrow> bool" where
  "grid_not_ready st =
     (\<not> gridInitialized st \<or> length (grid st) = 0 \<or> length (grid st) \<noteq> size_n st \<or>
      (case row_at (grid st) 0 of None \<Rightarrow> True | Some r \<Rightarrow> length r \<noteq> size_n st))"

section \<open>Energy change of a candidate flip\<close>

text \<open>
  The four neighbour positions \<^verbatim>\<open>[ny, nx]\<close> of \<^verbatim>\<open>calculateDeltaE\<close>.  JavaScript's \<^verbatim>\<open>%\<close> is
  the truncated remainder \<open>smod\<close>.  The list is only built after the guard, where
  \<^verbatim>\<open>size\<close> is the positive number of rows.
\<close>

definition neighbors :: "nat \<Rightarrow> int \<Rightarrow> int \<Rightarrow> (int \<times> int) list" where
  "neighbors n x y =
     [((y - 1 + int n) smod int n, x),
      ((y + 1) smod int n, x),
      (y, (x - 1 + int n) smod int n),
      (y, (x + 1) smod int n)]"

text \<open>The \<^verbatim>\<open>for (const [ny, nx] of neighbors)\<close> loop: undefined neighbours are skipped.\<close>

fun neighbor_sum :: "lattice \<Rightarrow> (int \<times> int) list \<Rightarrow> jsnum \<Rightarrow> jsnum" where
  "neighbor_sum g [] sm = sm"
| "neighbor_sum g ((ny, nx) # rest) sm =
     (case slot_at g ny nx of
        None \<Rightarrow> neighbor_sum g rest sm
      | Some v \<Rightarrow> neighbor_sum g rest (js_add sm v))"

definition calculateDeltaE :: "state \<Rightarrow> int \<Rightarrow> int \<Rightarrow> jsnum" where
  "calculateDeltaE st x y =
     (if grid_not_ready st then Num 0
      else case slot_at (grid st) y x of
        None \<Rightarrow> Num 0
      | Some spin \<Rightarrow>
          let sm = neighbor_sum (grid st) (neighbors (size_n st) x y) (Num 0)
          in js_add (js_mul (js_mul (js_mul (Num 2) (Num (coupling st))) spin) sm)
                    (js_mul (js_mul (Num 2) (Num (externalField st))) spin))"

section \<open>Well-formed lattices\<close>

definition is_spin :: "jsnum option \<Rightarrow> bool" where
  "is_spin c = (c = Some (Num 1) \<or> c = Some (Num (- 1)))"

definition wf_grid :: "nat \<Rightarrow> lattice \<Rightarrow> bool" where
  "wf_grid n g = (length g = n \<and> (\<forall>row \<in> set g. length row = n \<and> (\<forall>c \<in> set row. is_spin c)))"

text \<open>The spin stored at column \<open>x\<close> of row \<open>y\<close>, as a real; \<open>0\<close> where no number is stored.\<close>

definition spin_at :: "lattice \<Rightarrow> int \<Rightarrow> int \<Rightarrow> real" where
  "spin_at g x y = (case slot_at g y x of Some (Num v) \<Rightarrow> v | _ \<Rightarrow> 0)"


section \<open>Writing a flipped spin\<close>

text \<open>\<^verbatim>\<open>v * -1\<close>, where an undefined \<open>v\<close> gives \<^verbatim>\<open>NaN\<close>.\<close>

definition js_negate :: "jsnum option \<Rightarrow> jsnum" where
  "js_negate c = (case c of None \<Rightarrow> NaN | Some v \<Rightarrow> js_mul v (Num (- 1)))"

text \<open>
  \<^verbatim>\<open>row[x] = v\<close>: a store past the end extends the array and leaves holes in between.  A
  negative index would name a property outside the element list; neither caller passes one
  (the sweep writes only where the cell is defined, the paint loop starts at \<^verbatim>\<open>Math.max(0, ...)\<close>),
  and the element list is then unchanged.
\<close>

definition store_at :: "'a option list \<Rightarrow> int \<Rightarrow> 'a \<Rightarrow> 'a option list" where
  "store_at row x v =
     (if x < 0 then row
      else if x < int (length row) then row[nat x := Some v]
      else row @ replicate (nat x - length row) None @ [Some v])"

text \<open>
  \<^verbatim>\<open>newGrid[y][x] *= -1\<close>.  Reading \<^verbatim>\<open>newGrid[y][x]\<close> on a missing row raises a TypeError.
\<close>

definition flip_at :: "lattice \<Rightarrow> int \<Rightarrow> int \<Rightarrow> error + lattice" where
  "flip_at g y x =
     (case row_at g y of
        None \<Rightarrow> Inl TypeError
      | Some row \<Rightarrow> Inr (g[nat y := store_at row x (js_negate (slot_at g y x))]))"

section \<open>Full sweep\<close>

text \<open>
  \<^verbatim>\<open>Math.random()\<close> is an explicit stream \<open>rnd\<close> of draws with a read position \<open>k\<close>, which
  every function that draws returns advanced.  The working copy \<^verbatim>\<open>newGrid\<close> and the position
  are threaded through the loop; \<open>st\<close> is the render's state, which the loop never changes.
\<close>

definition evolve_trial :: "state \<Rightarrow> (nat \<Rightarrow> real) \<Rightarrow> lattice \<times> nat \<Rightarrow> error + (lattice \<times> nat)" where
  "evolve_trial st rnd gk =
     (let newGrid = fst gk; k = snd gk;
          x = \<lfloor>rnd k * real (size_n st)\<rfloor>;
          y = \<lfloor>rnd (k + 1) * real (size_n st)\<rfloor>
      in if slot_at (grid st) y x = None then Inr (newGrid, k + 2)
         else case calculateDeltaE st x y of
                NaN \<Rightarrow> Inr (newGrid, k + 3)
              | Num deltaE \<Rightarrow>
                  if deltaE \<le> 0 then map_sum id (\<lambda>g. (g, k + 2)) (flip_at newGrid y x)
                  else if rnd (k + 2) < exp (- deltaE / max 0.1 (temperature st))
                       then map_sum id (\<lambda>g. (g, k + 3)) (flip_at newGrid y x)
                       else Inr (newGrid, k + 3))"

text \<open>\<^verbatim>\<open>for (let i = 0; i < size * size; i++)\<close>, by the number of iterations left.\<close>

fun evolve_loop :: "state \<Rightarrow> (nat \<Rightarrow> real) \<Rightarrow> nat \<Rightarrow> lattice \<times> nat \<Rightarrow> error + (lattice \<times> nat)" where
  "evolve_loop st rnd 0 gk = Inr gk"
| "evolve_loop st rnd (Suc n) gk =
     (case evolve_trial st rnd gk of
        Inl e \<Rightarrow> Inl e
      | Inr gk' \<Rightarrow> evolve_loop st rnd n gk')"

definition evolveSystem :: "state \<Rightarrow> (nat \<Rightarrow> real) \<Rightarrow> nat \<Rightarrow> error + (state \<times> nat)" where
  "evolveSystem st rnd k =
     (if grid_not_ready st then Inr (st, k)
      else case evolve_loop st rnd (size_n st * size_n st) (grid st, k) of
             Inl e \<Rightarrow> Inl e
           | Inr (newGrid, k') \<Rightarrow> Inr (st\<lparr>grid := newGrid\<rparr>, k'))"

section \<open>Region perturbation\<close>

definition in_shape :: "string \<Rightarrow> real \<Rightarrow> real \<Rightarrow> real \<Rightarrow> int \<Rightarrow> int \<Rightarrow> bool" where
  "in_shape mode centerX centerY radius x y =
     (let dx = real_of_int x - centerX; dy = real_of_int y - centerY
      in if mode = ''circle'' then dx * dx + dy * dy \<le> radius * radius
         else if mode = ''square'' then \<bar>dx\<bar> \<le> radius \<and> \<bar>dy\<bar> \<le> radius
         else False)"

text \<open>The body of the inner loop of \<^verbatim>\<open>flipSpinsInRadius\<close>.\<close>

definition paint_cell ::
  "state \<Rightarrow> (nat \<Rightarrow> real) \<Rightarrow> real \<Rightarrow> real \<Rightarrow> real \<Rightarrow> int \<Rightarrow> int \<Rightarrow> lattice \<times> nat \<Rightarrow> error + (lattice \<times> nat)" where
  "paint_cell st rnd centerX centerY radius y x gk =
     (let newGrid = fst gk; k = snd gk
      in if in_shape (drawMode st) centerX centerY radius x y
         then case calculateDeltaE st x y of
                NaN \<Rightarrow> Inr (newGrid, k + 1)
              | Num deltaE \<Rightarrow>
                  if deltaE \<le> 0 then map_sum id (\<lambda>g. (g, k)) (flip_at newGrid y x)
                  else if rnd k < exp (- deltaE / max 0.1 (temperature st))
                       then map_sum id (\<lambda>g. (g, k + 1)) (flip_at newGrid y x)
                       else Inr (newGrid, k + 1)
         else Inr gk)"

fun paint_row ::
  "state \<Rightarrow> (nat \<Rightarrow> real) \<Rightarrow> real \<Rightarrow> real \<Rightarrow> real \<Rightarrow> int \<Rightarrow> int list \<Rightarrow> lattice \<times> nat \<Rightarrow> error + (lattice \<times> nat)" where
  "paint_row st rnd centerX centerY radius y [] gk = Inr gk"
| "paint_row st rnd centerX centerY radius y (x # xs) gk =
     (case paint_cell st rnd centerX centerY radius y x gk of
        Inl e \<Rightarrow> Inl e
      | Inr gk' \<Rightarrow> paint_row st rnd centerX centerY radius y xs gk')"

fun paint_rows ::
  "state \<Rightarrow> (nat \<Rightarrow> real) \<Rightarrow> real \<Rightarrow> real \<Rightarrow> real \<Rightarrow> int list \<Rightarrow> int list \<Rightarrow> lattice \<times> nat \<Rightarrow> error + (lattice \<times> nat)" where
  "paint_rows st rnd centerX centerY radius [] xs gk = Inr gk"
| "paint_rows st rnd centerX centerY radius (y # ys) xs gk =
     (case paint_row st rnd centerX centerY radius y xs gk of
        Inl e \<Rightarrow> Inl e
      | Inr gk' \<Rightarrow> paint_rows st rnd centerX centerY radius ys xs gk')"

definition xStart :: "real \<Rightarrow> real \<Rightarrow> int" where
  "xStart centerX radius = max 0 \<lfloor>centerX - radius\<rfloor>"

definition xEnd :: "nat \<Rightarrow> real \<Rightarrow> real \<Rightarrow> int" where
  "xEnd n centerX radius = min (int n - 1) \<lceil>centerX + radius\<rceil>"

text \<open>
  \<^verbatim>\<open>yStart\<close> and \<^verbatim>\<open>yEnd\<close> are the same expressions in \<^verbatim>\<open>centerY\<close>.  The two \<^verbatim>\<open>for\<close> loops run
  over the integers from the start to the end, inclusive.
\<close>

definition flipSpinsInRadius ::
  "state \<Rightarrow> (nat \<Rightarrow> real) \<Rightarrow> nat \<Rightarrow> real \<Rightarrow> real \<Rightarrow> real \<Rightarrow> error + (state \<times> nat)" where
  "flipSpinsInRadius st rnd k centerX centerY radius =
     (if grid_not_ready st then Inr (st, k)
      else case paint_rows st rnd centerX centerY radius
                  [xStart centerY radius .. xEnd (size_n st) centerY radius]
                  [xStart centerX radius .. xEnd (size_n st) centerX radius]
                  (grid st, k) of
             Inl e \<Rightarrow> Inl e
           | Inr (newGrid, k') \<Rightarrow> Inr (st\<lparr>grid := newGrid\<rparr>, k'))"

section \<open>Initialization, statistics and commands\<close>

text \<open>
  The array built by \<^verbatim>\<open>initializeGrid\<close>.  The random pattern draws once per cell, row by row.
\<close>

definition newGrid_of :: "nat \<Rightarrow> string \<Rightarrow> (nat \<Rightarrow> real) \<Rightarrow> nat \<Rightarrow> lattice" where
  "newGrid_of n pattern rnd k =
     (if pattern = ''positive'' then replicate n (replicate n (Some (Num 1)))
      else if pattern = ''negative'' then replicate n (replicate n (Some (Num (- 1))))
      else if pattern = ''checkerboard''
        then map (\<lambda>y. map (\<lambda>x. if (x + y) mod 2 = 0 then Some (Num 1) else Some (Num (- 1))) [0..<n]) [0..<n]
      else map (\<lambda>y. map (\<lambda>x. if rnd (k + y * n + x) < 0.5 then Some (Num 1) else Some (Num (- 1))) [0..<n]) [0..<n])"

text \<open>
  \<^verbatim>\<open>initializeGrid(pattern)\<close>.  The callback closes over \<^verbatim>\<open>size\<close>: \<open>n\<close> is the size of the
  render that created the callback, which a handler that also calls \<^verbatim>\<open>setSize\<close> does not see
  updated.  The state updates of one handler or effect are applied together, so
  \<^verbatim>\<open>gridInitialized\<close> ends true.
\<close>

definition initializeGrid :: "nat \<Rightarrow> string \<Rightarrow> state \<Rightarrow> (nat \<Rightarrow> real) \<Rightarrow> nat \<Rightarrow> state \<times> nat" where
  "initializeGrid n pattern st rnd k =
     (st\<lparr>gridInitialized := True, grid := newGrid_of n pattern rnd k, magnetizationHistory := []\<rparr>,
      if pattern = ''positive'' \<or> pattern = ''negative'' \<or> pattern = ''checkerboard'' then k
      else k + n * n)"

text \<open>
  The magnetization effect.  \<^verbatim>\<open>grid.flat()\<close> drops holes; \<^verbatim>\<open>reduce\<close> adds from the left,
  starting at 0.  After the guard \<^verbatim>\<open>totalSpins\<close> is positive.
\<close>

definition sumSpins :: "lattice \<Rightarrow> jsnum" where
  "sumSpins g = foldl js_add (Num 0) (List.map_filter id (concat g))"

definition netMagnetization :: "state \<Rightarrow> jsnum" where
  "netMagnetization st =
     (case sumSpins (grid st) of
        NaN \<Rightarrow> NaN
      | Num s \<Rightarrow> Num (s / real (size_n st * size_n st) * 100))"

definition magnetizationEffect :: "state \<Rightarrow> state" where
  "magnetizationEffect st =
     (if grid_not_ready st then st
      else st\<lparr>magnetization := netMagnetization st,
              magnetizationHistory := magnetizationHistory st @ [netMagnetization st]\<rparr>)"

text \<open>
  The effects that reinitialize (lines 93 to 101), run after a render whose state is \<open>cur\<close>
  when the previous render had \<open>prev\<close>.  \<^verbatim>\<open>initializeGrid\<close> is memoized on \<^verbatim>\<open>size\<close> and
  \<^verbatim>\<open>initialPattern\<close>, so both effects run exactly when one of the two changed: the first calls
  \<^verbatim>\<open>initializeGrid()\<close>, the second \<^verbatim>\<open>setIsPlaying(false)\<close> and \<^verbatim>\<open>initializeGrid()\<close> again.
\<close>

definition reinitEffects :: "state \<Rightarrow> state \<Rightarrow> (nat \<Rightarrow> real) \<Rightarrow> nat \<Rightarrow> state \<times> nat" where
  "reinitEffects prev cur rnd k =
     (if size_n cur = size_n prev \<and> initialPattern cur = initialPattern prev then (cur, k)
      else let first = initializeGrid (size_n cur) (initialPattern cur) cur rnd k
           in initializeGrid (size_n cur) (initialPattern cur)
                ((fst first)\<lparr>isPlaying := False\<rparr>) rnd (snd first))"

text \<open>\<^verbatim>\<open>handleGridSizeChange\<close>: \<^verbatim>\<open>setSize(value)\<close>.\<close>

definition handleGridSizeChange :: "nat \<Rightarrow> state \<Rightarrow> state" where
  "handleGridSizeChange v st = st\<lparr>size_n := v\<rparr>"

text \<open>The \<^verbatim>\<open>onClick\<close> of a pattern button: \<^verbatim>\<open>setInitialPattern(p); initializeGrid(p)\<close>.\<close>

definition onClickPattern :: "string \<Rightarrow> state \<Rightarrow> (nat \<Rightarrow> real) \<Rightarrow> nat \<Rightarrow> state \<times> nat" where
  "onClickPattern p st rnd k = initializeGrid (size_n st) p (st\<lparr>initialPattern := p\<rparr>) rnd k"

definition handleReset :: "state \<Rightarrow> (nat \<Rightarrow> real) \<Rightarrow> nat \<Rightarrow> state \<times> nat" where
  "handleReset st rnd k =
     initializeGrid (size_n st) ''random''
       (st\<lparr>size_n := 30, temperature := 2.0, coupling := 1.0, externalField := 0.0,
           annealingRate := 0, drawMode := ''circle'', initialPattern := ''random'',
           simulationSpeed := 100, isPlaying := False, magnetizationHistory := []\<rparr>)
       rnd k"

text \<open>
  One pass of effects, run after a render whose state is \<open>cur\<close> when the previous render had
  \<open>prev\<close>; \<open>gridChanged\<close> tells whether \<^verbatim>\<open>grid\<close> is a new array in this render.  All effects of
  the pass read \<open>cur\<close>, and their state updates are applied together, in the order of the
  effects: the two reinitializing effects first, then the magnetization effect (lines 104 to
  118), which runs when \<^verbatim>\<open>grid\<close>, \<^verbatim>\<open>size\<close> or \<^verbatim>\<open>gridInitialized\<close> changed.  Its guard and its
  sample are computed from \<open>cur\<close>; its update \<^verbatim>\<open>prev => [...prev, netMagnetization]\<close> appends to
  the history as the earlier updates of the pass left it.
\<close>

definition effectPass :: "state \<Rightarrow> state \<Rightarrow> bool \<Rightarrow> (nat \<Rightarrow> real) \<Rightarrow> nat \<Rightarrow> state \<times> nat" where
  "effectPass prev cur gridChanged rnd k =
     (let reinit = reinitEffects prev cur rnd k
      in if (gridChanged \<or> size_n cur \<noteq> size_n prev \<or> gridInitialized cur \<noteq> gridInitialized prev)
            \<and> \<not> grid_not_ready cur
         then ((fst reinit)\<lparr>magnetization := netMagnetization cur,
                 magnetizationHistory := magnetizationHistory (fst reinit) @ [netMagnetization cur]\<rparr>,
               snd reinit)
         else reinit)"

text \<open>
  The effects after a handler: the pass of the render the handler causes, and the pass of
  the render which that pass causes.  The second render has a new \<^verbatim>\<open>grid\<close> exactly when the
  reinitializing effects ran in the first pass.  A third pass would find nothing changed
  but the magnetization and its history, and run no effect.
\<close>

definition settle :: "state \<Rightarrow> state \<Rightarrow> bool \<Rightarrow> (nat \<Rightarrow> real) \<Rightarrow> nat \<Rightarrow> state \<times> nat" where
  "settle prev cur gridChanged rnd k =
     (let pass = effectPass prev cur gridChanged rnd k
      in effectPass cur (fst pass)
           (size_n cur \<noteq> size_n prev \<or> initialPattern cur \<noteq> initialPattern prev)
           rnd (snd pass))"

text \<open>
  A command is its handler followed by the effects of the renders it causes.  The size
  handler does not set \<^verbatim>\<open>grid\<close>; the pattern buttons and the reset do.
\<close>

definition commandSetSize :: "nat \<Rightarrow> state \<Rightarrow> (nat \<Rightarrow> real) \<Rightarrow> nat \<Rightarrow> state \<times> nat" where
  "commandSetSize v st rnd k = settle st (handleGridSizeChange v st) False rnd k"

definition commandSetPattern :: "string \<Rightarrow> state \<Rightarrow> (nat \<Rightarrow> real) \<Rightarrow> nat \<Rightarrow> state \<times> nat" where
  "commandSetPattern p st rnd k =
     (let clicked = onClickPattern p st rnd k in settle st (fst clicked) True rnd (snd clicked))"

definition commandReset :: "state \<Rightarrow> (nat \<Rightarrow> real) \<Rightarrow> nat \<Rightarrow> state \<times> nat" where
  "commandReset st rnd k =
     (let res = handleReset st rnd k in settle st (fst res) True rnd (snd res))"

section \<open>Specification-side notions\<close>

text \<open>
  The definitions of this section do not come from the source.  They phrase what the
  specification says, so that the functions above can be compared with them.
\<close>

text \<open>The Metropolis rule: accept when \<open>deltaE \<le> 0\<close>, else when the draw \<open>u\<close> is below the
  Boltzmann factor at the floored temperature.\<close>

definition metropolis_accept :: "real \<Rightarrow> real \<Rightarrow> real \<Rightarrow> bool" where
  "metropolis_accept deltaE u T = (deltaE \<le> 0 \<or> u < exp (- deltaE / max 0.1 T))"

text \<open>
  The decision on a candidate flip at \<open>(x, y)\<close>, taken on the lattice of \<open>st\<close> with the draw at
  position \<open>k\<close>: whether it is accepted, and the position after it.  The draw is read only
  when the energy change is not \<open>\<le> 0\<close>.
\<close>

definition decide :: "state \<Rightarrow> (nat \<Rightarrow> real) \<Rightarrow> nat \<Rightarrow> int \<Rightarrow> int \<Rightarrow> bool \<times> nat" where
  "decide st rnd k x y =
     (case calculateDeltaE st x y of
        NaN \<Rightarrow> (False, k + 1)
      | Num d \<Rightarrow> (metropolis_accept d (rnd k) (temperature st), if d \<le> 0 then k else k + 1))"

text \<open>Writing a list of accepted flips into a lattice, one after the other.\<close>

fun apply_flips :: "lattice \<Rightarrow> (int \<times> int) list \<Rightarrow> error + lattice" where
  "apply_flips g [] = Inr g"
| "apply_flips g ((x, y) # rest) =
     (case flip_at g y x of
        Inl e \<Rightarrow> Inl e
      | Inr g' \<Rightarrow> apply_flips g' rest)"

definition accepted_sites :: "((int \<times> int) \<times> bool) list \<Rightarrow> (int \<times> int) list" where
  "accepted_sites ts = map fst (filter snd ts)"

text \<open>
  The trials of a sweep as the specification describes them: each trial draws its site,
  and is decided on the lattice of \<open>st\<close>, the state before the sweep.  No working copy
  occurs in these definitions.
\<close>

definition trial_site :: "state \<Rightarrow> (nat \<Rightarrow> real) \<Rightarrow> nat \<Rightarrow> int \<times> int" where
  "trial_site st rnd k = (\<lfloor>rnd k * real (size_n st)\<rfloor>, \<lfloor>rnd (k + 1) * real (size_n st)\<rfloor>)"

definition trial_outcome :: "state \<Rightarrow> (nat \<Rightarrow> real) \<Rightarrow> nat \<Rightarrow> bool \<times> nat" where
  "trial_outcome st rnd k =
     (if slot_at (grid st) (snd (trial_site st rnd k)) (fst (trial_site st rnd k)) = None
      then (False, k + 2)
      else decide st rnd (k + 2) (fst (trial_site st rnd k)) (snd (trial_site st rnd k)))"

fun sweep_trials :: "state \<Rightarrow> (nat \<Rightarrow> real) \<Rightarrow> nat \<Rightarrow> nat \<Rightarrow> ((int \<times> int) \<times> bool) list" where
  "sweep_trials st rnd 0 k = []"
| "sweep_trials st rnd (Suc n) k =
     (trial_site st rnd k, fst (trial_outcome st rnd k))
       # sweep_trials st rnd n (snd (trial_outcome st rnd k))"

fun sweep_end :: "state \<Rightarrow> (nat \<Rightarrow> real) \<Rightarrow> nat \<Rightarrow> nat \<Rightarrow> nat" where
  "sweep_end st rnd 0 k = k"
| "sweep_end st rnd (Suc n) k = sweep_end st rnd n (snd (trial_outcome st rnd k))"

text \<open>The cells of the bounding box in the order the two loops visit them.\<close>

definition scan_order :: "int list \<Rightarrow> int list \<Rightarrow> (int \<times> int) list" where
  "scan_order ys xs = concat (map (\<lambda>y. map (\<lambda>x. (x, y)) xs) ys)"

definition paint_box :: "state \<Rightarrow> real \<Rightarrow> real \<Rightarrow> real \<Rightarrow> (int \<times> int) list" where
  "paint_box st centerX centerY radius =
     scan_order [xStart centerY radius .. xEnd (size_n st) centerY radius]
                [xStart centerX radius .. xEnd (size_n st) centerX radius]"

text \<open>
  The decisions of a paint taken on the lattice of \<open>st\<close>, the state before the paint: for
  each cell of the list that is inside the shape, the cell and whether its flip is accepted.
\<close>

fun paint_plan ::
  "state \<Rightarrow> (nat \<Rightarrow> real) \<Rightarrow> real \<Rightarrow> real \<Rightarrow> real \<Rightarrow> (int \<times> int) list \<Rightarrow> nat \<Rightarrow> ((int \<times> int) \<times> bool) list" where
  "paint_plan st rnd centerX centerY radius [] k = []"
| "paint_plan st rnd centerX centerY radius ((x, y) # cs) k =
     (if in_shape (drawMode st) centerX centerY radius x y
      then ((x, y), fst (decide st rnd k x y))
             # paint_plan st rnd centerX centerY radius cs (snd (decide st rnd k x y))
      else paint_plan st rnd centerX centerY radius cs k)"

fun paint_end ::
  "state \<Rightarrow> (nat \<Rightarrow> real) \<Rightarrow> real \<Rightarrow> real \<Rightarrow> real \<Rightarrow> (int \<times> int) list \<Rightarrow> nat \<Rightarrow> nat" where
  "paint_end st rnd centerX centerY radius [] k = k"
| "paint_end st rnd centerX centerY radius ((x, y) # cs) k =
     (if in_shape (drawMode st) centerX centerY radius x y
      then paint_end st rnd centerX centerY radius cs (snd (decide st rnd k x y))
      else paint_end st rnd centerX centerY radius cs k)"

text \<open>
  The region perturbation as the specification words it: each member cell is decided on the
  working copy, which already holds the flips accepted earlier in the same operation.
\<close>

fun paint_live ::
  "state \<Rightarrow> (nat \<Rightarrow> real) \<Rightarrow> real \<Rightarrow> real \<Rightarrow> real \<Rightarrow> (int \<times> int) list \<Rightarrow> lattice \<times> nat \<Rightarrow> error + (lattice \<times> nat)" where
  "paint_live st rnd centerX centerY radius [] gk = Inr gk"
| "paint_live st rnd centerX centerY radius ((x, y) # cs) gk =
     (if in_shape (drawMode st) centerX centerY radius x y
      then if fst (decide (st\<lparr>grid := fst gk\<rparr>) rnd (snd gk) x y)
           then case flip_at (fst gk) y x of
                  Inl e \<Rightarrow> Inl e
                | Inr g' \<Rightarrow> paint_live st rnd centerX centerY radius cs
                             (g', snd (decide (st\<lparr>grid := fst gk\<rparr>) rnd (snd gk) x y))
           else paint_live st rnd centerX centerY radius cs
                  (fst gk, snd (decide (st\<lparr>grid := fst gk\<rparr>) rnd (snd gk) x y))
      else paint_live st rnd centerX centerY radius cs gk)"

definition paintRegion_live ::
  "state \<Rightarrow> (nat \<Rightarrow> real) \<Rightarrow> nat \<Rightarrow> real \<Rightarrow> real \<Rightarrow> real \<Rightarrow> error + (state \<times> nat)" where
  "paintRegion_live st rnd k centerX centerY radius =
     (if grid_not_ready st then Inr (st, k)
      else case paint_live st rnd centerX centerY radius (paint_box st centerX centerY radius) (grid st, k) of
             Inl e \<Rightarrow> Inl e
           | Inr (newGrid, k') \<Rightarrow> Inr (st\<lparr>grid := newGrid\<rparr>, k'))"

text \<open>
  A cell with its spin negated, written without the arithmetic of the source: a number
  changes its sign, and what is not a number becomes \<^verbatim>\<open>NaN\<close>.
\<close>

definition negated :: "jsnum option \<Rightarrow> jsnum option" where
  "negated c = (case c of Some (Num v) \<Rightarrow> Some (Num (- v)) | _ \<Rightarrow> Some NaN)"

text \<open>The sum of all spins, and the spin total of a lattice whose cells all hold numbers.\<close>

definition cell_value :: "jsnum option \<Rightarrow> real" where
  "cell_value c = (case c of Some (Num v) \<Rightarrow> v | _ \<Rightarrow> 0)"

definition total_spin :: "lattice \<Rightarrow> real" where
  "total_spin g = sum_list (map cell_value (concat g))"

section \<open>Example states\<close>

text \<open>
  A 10 by 10 lattice of up spins with two down spins, at columns 4 and 6 of row 4, and a
  state that holds it with the default parameters.
\<close>

definition ex_grid :: lattice where
  "ex_grid = (replicate 10 (replicate 10 (Some (Num 1))))
       [4 := (replicate 10 (Some (Num 1)))[4 := Some (Num (- 1)), 6 := Some (Num (- 1))]]"

definition ex_state :: state where
  "ex_state = \<lparr>grid = ex_grid, size_n = 10, temperature = 2, coupling = 1, externalField = 0,
     magnetization = Num 0, isPlaying = False, magnetizationHistory = [], annealingRate = 0,
     drawMode = ''circle'', initialPattern = ''positive'', gridInitialized = True,
     simulationSpeed = 100\<rparr>"

text \<open>A stream of draws that are all one half.\<close>

definition rnd_half :: "nat \<Rightarrow> real" where
  "rnd_half i = 1 / 2"

text \<open>A stream whose first two draws are \<open>0.45\<close> and whose other draws are one half.\<close>

definition rnd_first :: "nat \<Rightarrow> real" where
  "rnd_first i = (if i < 2 then 9 / 20 else 1 / 2)"

text \<open>The example state while the simulation runs, and before its lattice is initialized.\<close>

definition ex_playing :: state where
  "ex_playing = ex_state\<lparr>isPlaying := True\<rparr>"

definition ex_uninit :: state where
  "ex_uninit = ex_state\<lparr>gridInitialized := False\<rparr>"

text \<open>The cell at \<open>(x, y)\<close> of the lattice an operation returns; \<open>None\<close> also when it raised.\<close>

definition cell_after :: "error + (state \<times> nat) \<Rightarrow> int \<Rightarrow> int \<Rightarrow> jsnum option" where
  "cell_after res x y = (case res of Inl e \<Rightarrow> None | Inr sk \<Rightarrow> slot_at (grid (fst sk)) y x)"

section \<open>Reading the lattice\<close>

lemma smod_nonneg: "0 \<le> a \<Longrightarrow> 0 < b \<Longrightarrow> (a::int) smod b = a mod b"
  by (simp add: smod_int_alt_def sgn_if)

lemma wrap_pred:
  assumes "0 \<le> (i::int)" "i < n"
  shows "(i - 1 + n) mod n = (if i = 0 then n - 1 else i - 1)"
proof (cases "i = 0")
  case True
  with assms have "(n - 1) mod n = n - 1" by (intro mod_pos_pos_trivial) auto
  with True show ?thesis by simp
next
  case False
  with assms have "(i - 1) mod n = i - 1" by (intro mod_pos_pos_trivial) auto
  with False show ?thesis by simp
qed

lemma wrap_succ:
  assumes "0 \<le> (i::int)" "i < n"
  shows "(i + 1) mod n = (if i = n - 1 then 0 else i + 1)"
proof (cases "i = n - 1")
  case True
  then show ?thesis by simp
next
  case False
  with assms have "(i + 1) mod n = i + 1" by (intro mod_pos_pos_trivial) auto
  with False show ?thesis by simp
qed

lemma row_at_Some: "row_at g y = Some r \<longleftrightarrow> 0 \<le> y \<and> y < int (length g) \<and> r = g ! nat y"
  by (auto simp: row_at_def)

lemma row_at_None: "row_at g y = None \<longleftrightarrow> \<not> (0 \<le> y \<and> y < int (length g))"
  by (simp add: row_at_def)

lemma wf_grid_nth:
  "wf_grid n g \<longleftrightarrow>
     length g = n \<and> (\<forall>i<n. length (g ! i) = n \<and> (\<forall>j<n. is_spin (g ! i ! j)))"
  unfolding wf_grid_def
proof (intro iffI conjI allI impI)
  fix i j
  assume h: "length g = n \<and> (\<forall>row\<in>set g. length row = n \<and> (\<forall>c\<in>set row. is_spin c))"
    and i: "i < n"
  then have r: "g ! i \<in> set g" by simp
  with h show "length (g ! i) = n" by blast
  assume j: "j < n"
  with h r have "g ! i ! j \<in> set (g ! i)" by simp
  with h r show "is_spin (g ! i ! j)" by blast
next
  assume h: "length g = n \<and> (\<forall>i<n. length (g ! i) = n \<and> (\<forall>j<n. is_spin (g ! i ! j)))"
  then show "length g = n" by simp
  show "\<forall>row\<in>set g. length row = n \<and> (\<forall>c\<in>set row. is_spin c)"
  proof
    fix row assume "row \<in> set g"
    then obtain i where i: "i < length g" "row = g ! i" by (auto simp: in_set_conv_nth)
    with h have len: "length row = n" and cells: "\<forall>j<n. is_spin (row ! j)" by auto
    from len cells have "\<forall>c\<in>set row. is_spin c" by (auto simp: in_set_conv_nth)
    with len show "length row = n \<and> (\<forall>c\<in>set row. is_spin c)" by simp
  qed
qed simp

lemma wf_slot:
  assumes "wf_grid n g" "0 \<le> x" "x < int n" "0 \<le> y" "y < int n"
  shows "is_spin (slot_at g y x)"
proof -
  from assms have lg: "length g = n" by (simp add: wf_grid_def)
  with assms have yl: "nat y < length g" and row: "g ! nat y \<in> set g"
    by auto
  with assms have len: "length (g ! nat y) = n" and cells: "\<forall>c \<in> set (g ! nat y). is_spin c"
    by (auto simp: wf_grid_def)
  from len assms have "(g ! nat y) ! nat x \<in> set (g ! nat y)" by simp
  with cells have "is_spin ((g ! nat y) ! nat x)" by blast
  with assms len lg show ?thesis by (simp add: slot_at_def row_at_def)
qed

lemma wf_slot_Num:
  assumes "wf_grid n g" "0 \<le> x" "x < int n" "0 \<le> y" "y < int n"
  shows "slot_at g y x = Some (Num (spin_at g x y)) \<and> (spin_at g x y = 1 \<or> spin_at g x y = - 1)"
  using wf_slot [OF assms] by (auto simp: is_spin_def spin_at_def)

lemma wf_ready:
  assumes "gridInitialized st" "wf_grid (size_n st) (grid st)" "0 < size_n st"
  shows "\<not> grid_not_ready st"
proof -
  from assms have "length (grid st) = size_n st" and "grid st ! 0 \<in> set (grid st)"
    by (auto simp: wf_grid_def)
  with assms show ?thesis by (auto simp: grid_not_ready_def row_at_def wf_grid_def)
qed

lemma ex_wf: "wf_grid 10 ex_grid"
  by (simp add: wf_grid_nth ex_grid_def is_spin_def nth_list_update)

section \<open>The energy change on a well-formed lattice\<close>

text \<open>
  Claim C5.  On an initialized state whose lattice is well formed (\<open>size\<close> rows of \<open>size\<close>
  cells, each \<open>+1\<close> or \<open>-1\<close>) and at a site \<open>(x, y)\<close> inside the lattice, \<^verbatim>\<open>calculateDeltaE\<close>
  returns \<open>2 J s nsum + 2 H s\<close>, where \<open>s\<close> is the spin at \<open>(x, y)\<close> and \<open>nsum\<close> adds the
  spins of rows \<open>(y - 1 + N) mod N\<close> and \<open>(y + 1) mod N\<close> in column \<open>x\<close> and of columns
  \<open>(x - 1 + N) mod N\<close> and \<open>(x + 1) mod N\<close> in row \<open>y\<close>.  The indices wrap: the neighbour
  before index 0 is index \<open>N - 1\<close> and the neighbour after \<open>N - 1\<close> is index 0; no index is
  clamped to the edge.
\<close>

theorem calculateDeltaE_formula:
  assumes init: "gridInitialized st" and wf: "wf_grid (size_n st) (grid st)"
    and x: "0 \<le> x" "x < int (size_n st)" and y: "0 \<le> y" "y < int (size_n st)"
  shows "calculateDeltaE st x y =
           Num (2 * coupling st * spin_at (grid st) x y *
                  (spin_at (grid st) x ((y - 1 + int (size_n st)) mod int (size_n st)) +
                   spin_at (grid st) x ((y + 1) mod int (size_n st)) +
                   spin_at (grid st) ((x - 1 + int (size_n st)) mod int (size_n st)) y +
                   spin_at (grid st) ((x + 1) mod int (size_n st)) y)
                + 2 * externalField st * spin_at (grid st) x y)
         \<and> (y - 1 + int (size_n st)) mod int (size_n st) = (if y = 0 then int (size_n st) - 1 else y - 1)
         \<and> (y + 1) mod int (size_n st) = (if y = int (size_n st) - 1 then 0 else y + 1)
         \<and> (x - 1 + int (size_n st)) mod int (size_n st) = (if x = 0 then int (size_n st) - 1 else x - 1)
         \<and> (x + 1) mod int (size_n st) = (if x = int (size_n st) - 1 then 0 else x + 1)"
proof -
  let ?n = "int (size_n st)" and ?g = "grid st"
  from x have pos: "0 < size_n st" by simp
  have ready: "\<not> grid_not_ready st" by (rule wf_ready [OF init wf pos])
  have up: "(y - 1 + ?n) smod ?n = (y - 1 + ?n) mod ?n" using y by (intro smod_nonneg) auto
  have dn: "(y + 1) smod ?n = (y + 1) mod ?n" using y by (intro smod_nonneg) auto
  have lf: "(x - 1 + ?n) smod ?n = (x - 1 + ?n) mod ?n" using x by (intro smod_nonneg) auto
  have rt: "(x + 1) smod ?n = (x + 1) mod ?n" using x by (intro smod_nonneg) auto
  have c: "slot_at ?g y x = Some (Num (spin_at ?g x y))"
    using wf_slot_Num [OF wf x y] by simp
  have u: "slot_at ?g ((y - 1 + ?n) mod ?n) x = Some (Num (spin_at ?g x ((y - 1 + ?n) mod ?n)))"
    using wf_slot_Num [OF wf x, of "(y - 1 + ?n) mod ?n"] pos by simp
  have d: "slot_at ?g ((y + 1) mod ?n) x = Some (Num (spin_at ?g x ((y + 1) mod ?n)))"
    using wf_slot_Num [OF wf x, of "(y + 1) mod ?n"] pos by simp
  have l: "slot_at ?g y ((x - 1 + ?n) mod ?n) = Some (Num (spin_at ?g ((x - 1 + ?n) mod ?n) y))"
    using wf_slot_Num [OF wf _ _ y, of "(x - 1 + ?n) mod ?n"] pos by simp
  have r: "slot_at ?g y ((x + 1) mod ?n) = Some (Num (spin_at ?g ((x + 1) mod ?n) y))"
    using wf_slot_Num [OF wf _ _ y, of "(x + 1) mod ?n"] pos by simp
  have formula: "calculateDeltaE st x y =
           Num (2 * coupling st * spin_at ?g x y *
                  (spin_at ?g x ((y - 1 + ?n) mod ?n) + spin_at ?g x ((y + 1) mod ?n) +
                   spin_at ?g ((x - 1 + ?n) mod ?n) y + spin_at ?g ((x + 1) mod ?n) y)
                + 2 * externalField st * spin_at ?g x y)"
    using ready c u d l r
    by (simp add: calculateDeltaE_def neighbors_def up dn lf rt)
  have w1: "(y - 1 + ?n) mod ?n = (if y = 0 then ?n - 1 else y - 1)"
    by (rule wrap_pred [OF y])
  have w2: "(y + 1) mod ?n = (if y = ?n - 1 then 0 else y + 1)"
    by (rule wrap_succ [OF y])
  have w3: "(x - 1 + ?n) mod ?n = (if x = 0 then ?n - 1 else x - 1)"
    by (rule wrap_pred [OF x])
  have w4: "(x + 1) mod ?n = (if x = ?n - 1 then 0 else x + 1)"
    by (rule wrap_succ [OF x])
  from formula w1 w2 w3 w4 show ?thesis by blast
qed

text \<open>
  On the example state the site \<open>(4, 4)\<close> holds a down spin among four up spins, and the
  energy change of flipping it is \<open>-8\<close>.
\<close>

theorem calculateDeltaE_formula_witness:
  "gridInitialized ex_state \<and> wf_grid (size_n ex_state) (grid ex_state) \<and>
   calculateDeltaE ex_state 4 4 = Num (- 8)"
  using calculateDeltaE_formula [of ex_state 4 4] ex_wf
  by (simp add: ex_state_def spin_at_def slot_at_def row_at_def ex_grid_def)

section \<open>Flipping cells of a lattice\<close>

lemma store_at_read:
  "(if 0 \<le> x' \<and> x' < int (length (store_at row x v)) then store_at row x v ! nat x' else None) =
   (if x' = x \<and> 0 \<le> x then Some v
    else if 0 \<le> x' \<and> x' < int (length row) then row ! nat x' else None)"
proof (cases "x < 0")
  case True
  then show ?thesis by (auto simp: store_at_def)
next
  case nonneg: False
  show ?thesis
  proof (cases "x < int (length row)")
    case True
    with nonneg show ?thesis
      by (auto simp: store_at_def nth_list_update nat_eq_iff)
  next
    case False
    with nonneg have len: "length (store_at row x v) = nat x + 1"
      by (simp add: store_at_def)
    from False nonneg have st: "store_at row x v = row @ replicate (nat x - length row) None @ [Some v]"
      by (simp add: store_at_def)
    show ?thesis
    proof (cases "0 \<le> x' \<and> x' \<le> x")
      case False
      with nonneg len \<open>\<not> x < int (length row)\<close> show ?thesis by auto
    next
      case True
      with nonneg \<open>\<not> x < int (length row)\<close> show ?thesis
        unfolding st by (auto simp: nth_append nat_eq_iff)
    qed
  qed
qed

lemma flip_at_Inr:
  "flip_at g y x = Inr g' \<longleftrightarrow>
     0 \<le> y \<and> y < int (length g) \<and>
     g' = g[nat y := store_at (g ! nat y) x (js_negate (slot_at g y x))]"
  by (auto simp: flip_at_def row_at_def)

lemma flip_at_length: "flip_at g y x = Inr g' \<Longrightarrow> length g' = length g"
  by (auto simp: flip_at_Inr)

lemma flip_at_defined: "0 \<le> y \<Longrightarrow> y < int (length g) \<Longrightarrow> \<exists>g'. flip_at g y x = Inr g'"
  by (simp add: flip_at_Inr)

lemma flip_at_slot:
  assumes "flip_at g y x = Inr g'"
  shows "slot_at g' y' x' =
           (if y' = y \<and> x' = x \<and> 0 \<le> x then Some (js_negate (slot_at g y x)) else slot_at g y' x')"
proof -
  from assms have y: "0 \<le> y" "y < int (length g)"
    and g': "g' = g[nat y := store_at (g ! nat y) x (js_negate (slot_at g y x))]"
    by (auto simp: flip_at_Inr)
  show ?thesis
  proof (cases "y' = y")
    case False
    with y g' show ?thesis by (auto simp: slot_at_def row_at_def nat_eq_iff)
  next
    case True
    with y g' have "slot_at g' y' x' =
        (if 0 \<le> x' \<and> x' < int (length (store_at (g ! nat y) x (js_negate (slot_at g y x))))
         then store_at (g ! nat y) x (js_negate (slot_at g y x)) ! nat x' else None)"
      by (simp add: slot_at_def row_at_def)
    also have "\<dots> = (if x' = x \<and> 0 \<le> x then Some (js_negate (slot_at g y x))
        else if 0 \<le> x' \<and> x' < int (length (g ! nat y)) then (g ! nat y) ! nat x' else None)"
      by (rule store_at_read)
    also have "\<dots> = (if y' = y \<and> x' = x \<and> 0 \<le> x then Some (js_negate (slot_at g y x)) else slot_at g y' x')"
      using True y by (simp add: slot_at_def row_at_def)
    finally show ?thesis .
  qed
qed

lemma is_spin_negate: "is_spin c \<Longrightarrow> is_spin (Some (js_negate c))"
  by (auto simp: is_spin_def js_negate_def)

lemma flip_at_wf:
  assumes wf: "wf_grid n g" and x: "0 \<le> x" "x < int n" and y: "0 \<le> y" "y < int n"
  shows "\<exists>g'. flip_at g y x = Inr g' \<and> wf_grid n g'"
proof -
  from wf have lg: "length g = n" by (simp add: wf_grid_def)
  from wf y have lr: "length (g ! nat y) = n" by (simp add: wf_grid_nth)
  let ?v = "js_negate (slot_at g y x)"
  let ?g' = "g[nat y := store_at (g ! nat y) x ?v]"
  have f: "flip_at g y x = Inr ?g'" using y lg by (simp add: flip_at_Inr)
  have st: "store_at (g ! nat y) x ?v = (g ! nat y)[nat x := Some ?v]"
    using x lr by (simp add: store_at_def)
  have sp: "is_spin (Some ?v)" by (rule is_spin_negate [OF wf_slot [OF wf x y]])
  have ny: "nat y < n" and nx: "nat x < n" using x y by simp_all
  have "wf_grid n ?g'"
    unfolding wf_grid_nth
  proof (intro conjI allI impI)
    show "length ?g' = n" using lg by simp
  next
    fix i assume "i < n"
    then show "length (?g' ! i) = n"
      using wf lg lr ny by (cases "i = nat y") (simp_all add: st wf_grid_nth)
  next
    fix i j assume "i < n" "j < n"
    then show "is_spin (?g' ! i ! j)"
      using wf lg lr sp ny nx
      by (cases "i = nat y"; cases "j = nat x") (simp_all add: st wf_grid_nth)
  qed
  with f show ?thesis by blast
qed

lemma apply_flips_append:
  "apply_flips g (a @ b) = (case apply_flips g a of Inl e \<Rightarrow> Inl e | Inr g' \<Rightarrow> apply_flips g' b)"
  by (induction a arbitrary: g) (auto split: sum.splits)

lemma accepted_sites_append: "accepted_sites (a @ b) = accepted_sites a @ accepted_sites b"
  by (simp add: accepted_sites_def)

lemma accepted_sites_Cons:
  "accepted_sites ((c, a) # ts) = (if a then c # accepted_sites ts else accepted_sites ts)"
  by (simp add: accepted_sites_def)

lemma accepted_sites_Nil: "accepted_sites [] = []"
  by (simp add: accepted_sites_def)

lemma apply_flips_defined:
  "\<forall>(x, y) \<in> set sites. 0 \<le> y \<and> y < int (length g)
   \<Longrightarrow> \<exists>g'. apply_flips g sites = Inr g' \<and> length g' = length g"
proof (induction sites arbitrary: g)
  case Nil
  then show ?case by simp
next
  case (Cons c sites)
  obtain x y where c: "c = (x, y)" by (cases c)
  with Cons.prems obtain g1 where g1: "flip_at g y x = Inr g1"
    using flip_at_defined [of y g x] by auto
  then have l1: "length g1 = length g" by (rule flip_at_length)
  with Cons.prems have "\<forall>(x, y) \<in> set sites. 0 \<le> y \<and> y < int (length g1)" by auto
  from Cons.IH [OF this] l1 g1 c show ?case by auto
qed

lemma apply_flips_frame:
  "apply_flips g sites = Inr g' \<Longrightarrow> (x, y) \<notin> set sites \<Longrightarrow> slot_at g' y x = slot_at g y x"
proof (induction sites arbitrary: g)
  case Nil
  then show ?case by simp
next
  case (Cons c sites)
  obtain x1 y1 where c: "c = (x1, y1)" by (cases c)
  with Cons.prems obtain g1 where g1: "flip_at g y1 x1 = Inr g1" and rest: "apply_flips g1 sites = Inr g'"
    by (auto split: sum.splits)
  from Cons.prems c have ne: "\<not> (y = y1 \<and> x = x1)" and notin: "(x, y) \<notin> set sites" by auto
  from Cons.IH [OF rest notin] have "slot_at g' y x = slot_at g1 y x" .
  also have "\<dots> = slot_at g y x" using flip_at_slot [OF g1, of y x] ne by auto
  finally show ?case .
qed

lemma apply_flips_wf:
  "wf_grid n g \<Longrightarrow> \<forall>(x, y) \<in> set sites. 0 \<le> x \<and> x < int n \<and> 0 \<le> y \<and> y < int n
   \<Longrightarrow> \<exists>g'. apply_flips g sites = Inr g' \<and> wf_grid n g'"
proof (induction sites arbitrary: g)
  case Nil
  then show ?case by simp
next
  case (Cons c sites)
  obtain x y where c: "c = (x, y)" by (cases c)
  with Cons.prems obtain g1 where g1: "flip_at g y x = Inr g1" "wf_grid n g1"
    using flip_at_wf [of n g x y] by auto
  from Cons.prems have "\<forall>(x, y) \<in> set sites. 0 \<le> x \<and> x < int n \<and> 0 \<le> y \<and> y < int n" by auto
  from Cons.IH [OF g1(2) this] g1 c show ?case by auto
qed

lemma apply_flips_distinct:
  "apply_flips g sites = Inr g' \<Longrightarrow> distinct sites \<Longrightarrow> (x, y) \<in> set sites \<Longrightarrow> 0 \<le> x
   \<Longrightarrow> slot_at g' y x = Some (js_negate (slot_at g y x))"
proof (induction sites arbitrary: g)
  case Nil
  then show ?case by simp
next
  case (Cons c sites)
  obtain x1 y1 where c: "c = (x1, y1)" by (cases c)
  with Cons.prems obtain g1 where g1: "flip_at g y1 x1 = Inr g1" and rest: "apply_flips g1 sites = Inr g'"
    by (auto split: sum.splits)
  show ?case
  proof (cases "(x, y) = (x1, y1)")
    case True
    with Cons.prems c have "(x, y) \<notin> set sites" by auto
    from apply_flips_frame [OF rest this] have "slot_at g' y x = slot_at g1 y x" .
    also have "\<dots> = Some (js_negate (slot_at g y x))"
      using flip_at_slot [OF g1, of y x] True Cons.prems by auto
    finally show ?thesis .
  next
    case False
    with Cons.prems c have mem: "(x, y) \<in> set sites" and d: "distinct sites" by auto
    from Cons.IH [OF rest d mem \<open>0 \<le> x\<close>] have "slot_at g' y x = Some (js_negate (slot_at g1 y x))" .
    moreover have "slot_at g1 y x = slot_at g y x"
      using flip_at_slot [OF g1, of y x] False by auto
    ultimately show ?thesis by simp
  qed
qed

section \<open>The sweep decides on the lattice before the sweep\<close>

lemma decide_cases:
  "decide st rnd k x y =
     (case calculateDeltaE st x y of
        NaN \<Rightarrow> (False, k + 1)
      | Num d \<Rightarrow> if d \<le> 0 then (True, k)
                 else (rnd k < exp (- d / max 0.1 (temperature st)), k + 1))"
  by (auto simp: decide_def metropolis_accept_def split: jsnum.splits)

lemma evolve_trial_outcome:
  "evolve_trial st rnd (g, k) =
     (if fst (trial_outcome st rnd k)
      then map_sum id (\<lambda>g'. (g', snd (trial_outcome st rnd k)))
             (flip_at g (snd (trial_site st rnd k)) (fst (trial_site st rnd k)))
      else Inr (g, snd (trial_outcome st rnd k)))"
  by (auto simp: evolve_trial_def trial_outcome_def trial_site_def decide_cases Let_def
           eval_nat_numeral split: jsnum.splits)

lemma evolve_loop_trials:
  "evolve_loop st rnd n (g, k) =
     map_sum id (\<lambda>g'. (g', sweep_end st rnd n k))
       (apply_flips g (accepted_sites (sweep_trials st rnd n k)))"
proof (induction n arbitrary: g k)
  case 0
  show ?case by (simp add: accepted_sites_Nil)
next
  case (Suc n)
  obtain x y where site: "trial_site st rnd k = (x, y)" by (cases "trial_site st rnd k")
  show ?case
  proof (cases "fst (trial_outcome st rnd k)")
    case False
    then show ?thesis
      by (simp add: evolve_trial_outcome Suc.IH accepted_sites_Cons)
  next
    case True
    show ?thesis
    proof (cases "flip_at g y x")
      case (Inl e)
      with True site show ?thesis
        by (simp add: evolve_trial_outcome accepted_sites_Cons)
    next
      case (Inr g1)
      with True site show ?thesis
        by (simp add: evolve_trial_outcome accepted_sites_Cons Suc.IH)
    qed
  qed
qed

lemma length_sweep_trials: "length (sweep_trials st rnd n k) = n"
  by (induction n arbitrary: k) simp_all

lemma trial_outcome_next: "k + 2 \<le> snd (trial_outcome st rnd k) \<and> snd (trial_outcome st rnd k) \<le> k + 3"
  by (auto simp: trial_outcome_def decide_cases split: jsnum.splits)

lemma sweep_end_bounds: "k + 2 * n \<le> sweep_end st rnd n k \<and> sweep_end st rnd n k \<le> k + 3 * n"
proof (induction n arbitrary: k)
  case 0
  show ?case by simp
next
  case (Suc n)
  from Suc.IH [of "snd (trial_outcome st rnd k)"] trial_outcome_next [of k st rnd]
  show ?case by simp
qed

lemma floor_draw_range:
  assumes "0 \<le> u" "u < 1" "0 < n"
  shows "0 \<le> \<lfloor>u * real n\<rfloor> \<and> \<lfloor>u * real n\<rfloor> < int n"
proof -
  from assms have "0 \<le> u * real n" by simp
  then have lo: "0 \<le> \<lfloor>u * real n\<rfloor>" by simp
  from assms have "u * real n < 1 * real n" by (intro mult_strict_right_mono) simp_all
  then have "u * real n < real_of_int (int n)" by simp
  then have "\<lfloor>u * real n\<rfloor> < int n" by (simp only: floor_less_iff)
  with lo show ?thesis by simp
qed

lemma trial_site_range:
  assumes "\<forall>i. 0 \<le> rnd i \<and> rnd i < 1" "0 < size_n st"
  shows "0 \<le> fst (trial_site st rnd k) \<and> fst (trial_site st rnd k) < int (size_n st) \<and>
         0 \<le> snd (trial_site st rnd k) \<and> snd (trial_site st rnd k) < int (size_n st)"
  using floor_draw_range [of "rnd k" "size_n st"] floor_draw_range [of "rnd (k + 1)" "size_n st"] assms
  by (simp add: trial_site_def)

lemma sweep_trials_sites:
  "c \<in> set (sweep_trials st rnd n k) \<Longrightarrow> \<exists>j. fst c = trial_site st rnd j"
  by (induction n arbitrary: k) auto

lemma sweep_trials_accepted:
  "(c, True) \<in> set (sweep_trials st rnd n k) \<Longrightarrow> slot_at (grid st) (snd c) (fst c) \<noteq> None"
proof (induction n arbitrary: k)
  case 0
  then show ?case by simp
next
  case (Suc n)
  then show ?case by (auto simp: trial_outcome_def split: if_splits)
qed

lemma slot_at_defined_row: "slot_at g y x \<noteq> None \<Longrightarrow> 0 \<le> y \<and> y < int (length g)"
  by (auto simp: slot_at_def row_at_def split: if_splits)

lemma sweep_flips_defined:
  "\<exists>g'. apply_flips (grid st) (accepted_sites (sweep_trials st rnd n k)) = Inr g' \<and>
        length g' = length (grid st)"
proof (rule apply_flips_defined)
  show "\<forall>(x, y)\<in>set (accepted_sites (sweep_trials st rnd n k)). 0 \<le> y \<and> y < int (length (grid st))"
  proof (clarify)
    fix x y assume "(x, y) \<in> set (accepted_sites (sweep_trials st rnd n k))"
    then have "((x, y), True) \<in> set (sweep_trials st rnd n k)"
      by (auto simp: accepted_sites_def)
    from sweep_trials_accepted [OF this] have "slot_at (grid st) y x \<noteq> None" by simp
    then show "0 \<le> y \<and> y < int (length (grid st))" by (rule slot_at_defined_row)
  qed
qed

lemma ex_ready: "\<not> grid_not_ready ex_state"
  by (simp add: grid_not_ready_def ex_state_def ex_grid_def row_at_def)

lemma ready_pos: "\<not> grid_not_ready st \<Longrightarrow> 0 < size_n st \<and> length (grid st) = size_n st"
  by (cases "grid st") (auto simp: grid_not_ready_def)

lemma sweep_trials_drawn:
  "t \<in> set (sweep_trials st rnd n k)
   \<Longrightarrow> \<exists>j\<ge>k. t = (trial_site st rnd j, fst (trial_outcome st rnd j))"
proof (induction n arbitrary: k)
  case 0
  then show ?case by simp
next
  case (Suc n)
  show ?case
  proof (cases "t = (trial_site st rnd k, fst (trial_outcome st rnd k))")
    case True
    then show ?thesis by blast
  next
    case False
    with Suc.prems have "t \<in> set (sweep_trials st rnd n (snd (trial_outcome st rnd k)))" by simp
    from Suc.IH [OF this] obtain j where
      j: "snd (trial_outcome st rnd k) \<le> j" "t = (trial_site st rnd j, fst (trial_outcome st rnd j))"
      by blast
    with trial_outcome_next [of k st rnd] have "k \<le> j" by simp
    with j show ?thesis by blast
  qed
qed

lemma floor_draw_interval:
  assumes "0 < n"
  shows "\<lfloor>u * real n\<rfloor> = i \<longleftrightarrow> real_of_int i / real n \<le> u \<and> u < (real_of_int i + 1) / real n"
proof -
  from assms have n: "0 < real n" by simp
  have "\<lfloor>u * real n\<rfloor> = i \<longleftrightarrow> real_of_int i \<le> u * real n \<and> u * real n < real_of_int i + 1"
    by (rule floor_eq_iff)
  also have "\<dots> \<longleftrightarrow> real_of_int i / real n \<le> u \<and> u < (real_of_int i + 1) / real n"
    using n by (simp add: pos_divide_le_eq pos_less_divide_eq)
  finally show ?thesis .
qed

lemma exp_minus_two: "exp (- 2 :: real) < 1 / 2"
proof -
  have "1 + (2::real) \<le> exp 2" by (rule exp_ge_add_one_self)
  then have "(2::real) < exp 2" by simp
  then have "1 / exp (2::real) < 1 / 2" by (intro divide_strict_left_mono) simp_all
  then show ?thesis by (simp add: exp_minus inverse_eq_divide)
qed

lemma exp_minus_four: "exp (- 4 :: real) < 1 / 2"
proof -
  have "exp (- 4 :: real) \<le> exp (- 2)" by simp
  with exp_minus_two show ?thesis by linarith
qed

lemma ex_dE_44: "calculateDeltaE ex_state 4 4 = Num (- 8)"
  using ex_ready
  by (simp add: calculateDeltaE_def neighbors_def smod_int_alt_def slot_at_def row_at_def
        ex_state_def ex_grid_def)

lemma ex_dE_55: "calculateDeltaE ex_state 5 5 = Num 8"
  using ex_ready
  by (simp add: calculateDeltaE_def neighbors_def smod_int_alt_def slot_at_def row_at_def
        ex_state_def ex_grid_def)

lemma ex_slots:
  "slot_at ex_grid 4 4 = Some (Num (- 1))" "slot_at ex_grid 4 5 = Some (Num 1)"
  by (simp_all add: slot_at_def row_at_def ex_grid_def)

lemma negated_js_negate: "Some (js_negate c) = negated c"
  by (cases c rule: option.exhaust [case_names None Some])
     (auto simp: js_negate_def negated_def split: jsnum.splits)

lemma negated_funpow: "(negated ^^ n) (Some (Num v)) = Some (Num ((- 1) ^ n * v))"
  by (induction n) (simp_all add: negated_def)

lemma apply_flips_count:
  "apply_flips g sites = Inr g' \<Longrightarrow> \<forall>(x, y) \<in> set sites. 0 \<le> x
   \<Longrightarrow> slot_at g' y x = (negated ^^ count_list sites (x, y)) (slot_at g y x)"
proof (induction sites arbitrary: g)
  case Nil
  then show ?case by simp
next
  case (Cons c sites)
  obtain x1 y1 where c: "c = (x1, y1)" by (cases c)
  with Cons.prems obtain g1 where g1: "flip_at g y1 x1 = Inr g1" and rest: "apply_flips g1 sites = Inr g'"
    by (auto split: sum.splits)
  from Cons.prems c have x1: "0 \<le> x1" and nonneg: "\<forall>(x, y) \<in> set sites. 0 \<le> x" by auto
  from Cons.IH [OF rest nonneg]
  have ih: "slot_at g' y x = (negated ^^ count_list sites (x, y)) (slot_at g1 y x)" .
  show ?case
  proof (cases "(x, y) = (x1, y1)")
    case True
    with flip_at_slot [OF g1, of y x] x1 have "slot_at g1 y x = negated (slot_at g y x)"
      by (simp add: negated_js_negate)
    with ih True c show ?thesis by (simp add: funpow_swap1)
  next
    case False
    with flip_at_slot [OF g1, of y x] have "slot_at g1 y x = slot_at g y x" by auto
    moreover from False c have "c \<noteq> (x, y)" by auto
    ultimately show ?thesis using ih by simp
  qed
qed

lemma sweep_sites_nonneg:
  "\<forall>(x, y) \<in> set (accepted_sites (sweep_trials st rnd n k)). 0 \<le> x"
proof clarify
  fix x y assume "(x, y) \<in> set (accepted_sites (sweep_trials st rnd n k))"
  then have "((x, y), True) \<in> set (sweep_trials st rnd n k)" by (force simp: accepted_sites_def)
  from sweep_trials_accepted [OF this] show "0 \<le> x"
    by (auto simp: slot_at_def split: option.splits if_splits)
qed

lemma ex_first_site: "trial_site ex_state rnd_first 0 = (4, 4)"
  by (simp add: trial_site_def rnd_first_def ex_state_def)

lemma ex_first_outcome: "trial_outcome ex_state rnd_first 0 = (True, 2)"
proof -
  have "slot_at (grid ex_state) 4 4 \<noteq> None" by (simp add: ex_state_def ex_slots)
  then show ?thesis
    by (simp add: trial_outcome_def ex_first_site decide_def ex_dE_44 metropolis_accept_def)
qed

lemma ex_later_site: "2 \<le> k \<Longrightarrow> trial_site ex_state rnd_first k = (5, 5)"
  by (simp add: trial_site_def rnd_first_def ex_state_def)

lemma ex_later_outcome:
  assumes "2 \<le> k"
  shows "trial_outcome ex_state rnd_first k = (False, k + 3)"
proof -
  have slot: "slot_at (grid ex_state) 5 5 \<noteq> None"
    by (simp add: slot_at_def row_at_def ex_state_def ex_grid_def)
  have draw: "rnd_first (Suc (Suc k)) = 1 / 2" using assms by (simp add: rnd_first_def)
  have "\<not> metropolis_accept 8 (1 / 2) (temperature ex_state)"
    using exp_minus_four by (simp add: metropolis_accept_def ex_state_def)
  then have "\<not> metropolis_accept 8 (rnd_first (Suc (Suc k))) (temperature ex_state)"
    unfolding draw .
  with slot show ?thesis
    by (simp add: trial_outcome_def ex_later_site [OF assms] decide_def ex_dE_55
          eval_nat_numeral)
qed

lemma ex_later_trials:
  "2 \<le> k \<Longrightarrow> sweep_trials ex_state rnd_first n k = replicate n ((5, 5), False) \<and>
     sweep_end ex_state rnd_first n k = k + 3 * n"
proof (induction n arbitrary: k)
  case 0
  show ?case by simp
next
  case (Suc n)
  from Suc.prems have "2 \<le> k + 3" by simp
  from Suc.IH [OF this] Suc.prems show ?case
    by (simp add: ex_later_outcome ex_later_site)
qed

lemma ex_sweep:
  "sweep_trials ex_state rnd_first 100 0 = ((4, 4), True) # replicate 99 ((5, 5), False)"
  "sweep_end ex_state rnd_first 100 0 = 299"
proof -
  have later: "sweep_trials ex_state rnd_first 99 2 = replicate 99 ((5, 5), False)"
    "sweep_end ex_state rnd_first 99 2 = 299"
    using ex_later_trials [of 2 99] by simp_all
  have "sweep_trials ex_state rnd_first (Suc 99) 0 = ((4, 4), True) # replicate 99 ((5, 5), False)"
    and "sweep_end ex_state rnd_first (Suc 99) 0 = 299"
    unfolding sweep_trials.simps sweep_end.simps ex_first_site ex_first_outcome fst_conv snd_conv later
    by (rule refl)+
  then show "sweep_trials ex_state rnd_first 100 0 = ((4, 4), True) # replicate 99 ((5, 5), False)"
    and "sweep_end ex_state rnd_first 100 0 = 299"
    by simp_all
qed

lemma ex_sweep_accepted: "accepted_sites (sweep_trials ex_state rnd_first 100 0) = [(4, 4)]"
  by (simp add: ex_sweep accepted_sites_def)

text \<open>
  Claim C3.  On a state that passes the guard of \<^verbatim>\<open>evolveSystem\<close>, with draws in \<open>[0, 1)\<close>, one
  sweep is exactly \<open>N * N\<close> trials.  Each trial reads two draws of its own for its site:
  coordinate \<open>i\<close> is chosen exactly when the draw lies in \<open>[i / N, (i + 1) / N)\<close>, so the
  site lies in \<open>[0, N) \<times> [0, N)\<close> and is as uniform and independent as the draws are.  Each
  trial is decided by \<open>trial_outcome\<close> on the state before the sweep, never on the working
  copy; on a well-formed lattice no trial is skipped, and the outcome is the decision
  \<open>decide\<close> on the energy change that \<^verbatim>\<open>calculateDeltaE\<close> reads from that state.  The lattice
  after the sweep is the lattice before it with the accepted flips written into it: each
  cell has been negated once for every accepted trial at its site, so on a well-formed
  lattice it holds its old spin times \<open>(-1)\<close> to the number of accepted trials there, and a
  cell at which no trial was accepted is unchanged.  This lattice replaces the old one in a
  single state update.  The sweep reads between \<open>2 N N\<close> and \<open>3 N N\<close> draws.
\<close>

theorem evolveSystem_frozen_sweep:
  assumes ready: "\<not> grid_not_ready st" and draws: "\<forall>i. 0 \<le> rnd i \<and> rnd i < 1"
  shows "(\<exists>g'. apply_flips (grid st)
                 (accepted_sites (sweep_trials st rnd (size_n st * size_n st) k)) = Inr g' \<and>
               evolveSystem st rnd k =
                 Inr (st\<lparr>grid := g'\<rparr>, sweep_end st rnd (size_n st * size_n st) k) \<and>
               (\<forall>x y. slot_at g' y x =
                  (negated ^^ count_list
                      (accepted_sites (sweep_trials st rnd (size_n st * size_n st) k)) (x, y))
                    (slot_at (grid st) y x)) \<and>
               (wf_grid (size_n st) (grid st) \<longrightarrow>
                  (\<forall>x y. 0 \<le> x \<and> x < int (size_n st) \<and> 0 \<le> y \<and> y < int (size_n st) \<longrightarrow>
                     slot_at g' y x =
                       Some (Num ((- 1) ^ count_list
                                (accepted_sites (sweep_trials st rnd (size_n st * size_n st) k)) (x, y)
                              * spin_at (grid st) x y)))))
       \<and> length (sweep_trials st rnd (size_n st * size_n st) k) = size_n st * size_n st
       \<and> (\<forall>t \<in> set (sweep_trials st rnd (size_n st * size_n st) k).
            (\<exists>j\<ge>k. t = (trial_site st rnd j, fst (trial_outcome st rnd j))) \<and>
            0 \<le> fst (fst t) \<and> fst (fst t) < int (size_n st) \<and>
            0 \<le> snd (fst t) \<and> snd (fst t) < int (size_n st))
       \<and> (\<forall>j i. (fst (trial_site st rnd j) = i) =
                  (real_of_int i / real (size_n st) \<le> rnd j \<and>
                   rnd j < (real_of_int i + 1) / real (size_n st)))
       \<and> (\<forall>j i. (snd (trial_site st rnd j) = i) =
                  (real_of_int i / real (size_n st) \<le> rnd (j + 1) \<and>
                   rnd (j + 1) < (real_of_int i + 1) / real (size_n st)))
       \<and> (wf_grid (size_n st) (grid st) \<longrightarrow>
            (\<forall>j. trial_outcome st rnd j =
                   decide st rnd (j + 2) (fst (trial_site st rnd j)) (snd (trial_site st rnd j))))
       \<and> k + 2 * (size_n st * size_n st) \<le> sweep_end st rnd (size_n st * size_n st) k
       \<and> sweep_end st rnd (size_n st * size_n st) k \<le> k + 3 * (size_n st * size_n st)"
proof -
  let ?n = "size_n st * size_n st"
  let ?sites = "accepted_sites (sweep_trials st rnd ?n k)"
  from ready have pos: "0 < size_n st" by (simp add: ready_pos)
  have decided: "wf_grid (size_n st) (grid st) \<longrightarrow>
            (\<forall>j. trial_outcome st rnd j =
                   decide st rnd (j + 2) (fst (trial_site st rnd j)) (snd (trial_site st rnd j)))"
  proof (intro impI allI)
    fix j assume wf: "wf_grid (size_n st) (grid st)"
    from trial_site_range [OF draws pos, of j]
    have "is_spin (slot_at (grid st) (snd (trial_site st rnd j)) (fst (trial_site st rnd j)))"
      by (intro wf_slot [OF wf]) simp_all
    then have "slot_at (grid st) (snd (trial_site st rnd j)) (fst (trial_site st rnd j)) \<noteq> None"
      by (auto simp: is_spin_def)
    then show "trial_outcome st rnd j =
        decide st rnd (j + 2) (fst (trial_site st rnd j)) (snd (trial_site st rnd j))"
      unfolding trial_outcome_def by (simp only: if_False)
  qed
  obtain g' where g': "apply_flips (grid st) ?sites = Inr g'"
    using sweep_flips_defined [of st rnd ?n k] by blast
  have run: "evolveSystem st rnd k = Inr (st\<lparr>grid := g'\<rparr>, sweep_end st rnd ?n k)"
    using ready g' by (simp add: evolveSystem_def evolve_loop_trials)
  have cells: "\<forall>x y. slot_at g' y x = (negated ^^ count_list ?sites (x, y)) (slot_at (grid st) y x)"
    using apply_flips_count [OF g' sweep_sites_nonneg] by blast
  have spins: "wf_grid (size_n st) (grid st) \<longrightarrow>
      (\<forall>x y. 0 \<le> x \<and> x < int (size_n st) \<and> 0 \<le> y \<and> y < int (size_n st) \<longrightarrow>
         slot_at g' y x = Some (Num ((- 1) ^ count_list ?sites (x, y) * spin_at (grid st) x y)))"
  proof (intro impI allI)
    fix x y
    assume wf: "wf_grid (size_n st) (grid st)"
      and r: "0 \<le> x \<and> x < int (size_n st) \<and> 0 \<le> y \<and> y < int (size_n st)"
    from wf_slot_Num [OF wf, of x y] r
    have "slot_at (grid st) y x = Some (Num (spin_at (grid st) x y))" by simp
    with cells show "slot_at g' y x =
        Some (Num ((- 1) ^ count_list ?sites (x, y) * spin_at (grid st) x y))"
      by (simp add: negated_funpow)
  qed
  have sites: "\<forall>t \<in> set (sweep_trials st rnd ?n k).
            (\<exists>j\<ge>k. t = (trial_site st rnd j, fst (trial_outcome st rnd j))) \<and>
            0 \<le> fst (fst t) \<and> fst (fst t) < int (size_n st) \<and>
            0 \<le> snd (fst t) \<and> snd (fst t) < int (size_n st)"
  proof
    fix t assume "t \<in> set (sweep_trials st rnd ?n k)"
    from sweep_trials_drawn [OF this] obtain j where
      j: "k \<le> j" "t = (trial_site st rnd j, fst (trial_outcome st rnd j))" by blast
    with trial_site_range [OF draws pos, of j]
    show "(\<exists>j\<ge>k. t = (trial_site st rnd j, fst (trial_outcome st rnd j))) \<and>
            0 \<le> fst (fst t) \<and> fst (fst t) < int (size_n st) \<and>
            0 \<le> snd (fst t) \<and> snd (fst t) < int (size_n st)"
      by auto
  qed
  have ux: "\<forall>j i. (fst (trial_site st rnd j) = i) =
                  (real_of_int i / real (size_n st) \<le> rnd j \<and>
                   rnd j < (real_of_int i + 1) / real (size_n st))"
    using floor_draw_interval [OF pos] by (simp add: trial_site_def)
  have uy: "\<forall>j i. (snd (trial_site st rnd j) = i) =
                  (real_of_int i / real (size_n st) \<le> rnd (j + 1) \<and>
                   rnd (j + 1) < (real_of_int i + 1) / real (size_n st))"
    using floor_draw_interval [OF pos] by (simp add: trial_site_def)
  have ex: "\<exists>g'. apply_flips (grid st) ?sites = Inr g' \<and>
               evolveSystem st rnd k = Inr (st\<lparr>grid := g'\<rparr>, sweep_end st rnd ?n k) \<and>
               (\<forall>x y. slot_at g' y x = (negated ^^ count_list ?sites (x, y)) (slot_at (grid st) y x)) \<and>
               (wf_grid (size_n st) (grid st) \<longrightarrow>
                  (\<forall>x y. 0 \<le> x \<and> x < int (size_n st) \<and> 0 \<le> y \<and> y < int (size_n st) \<longrightarrow>
                     slot_at g' y x =
                       Some (Num ((- 1) ^ count_list ?sites (x, y) * spin_at (grid st) x y))))"
  proof (intro exI conjI)
    show "apply_flips (grid st) ?sites = Inr g'" by (rule g')
    show "evolveSystem st rnd k = Inr (st\<lparr>grid := g'\<rparr>, sweep_end st rnd ?n k)" by (rule run)
    show "\<forall>x y. slot_at g' y x = (negated ^^ count_list ?sites (x, y)) (slot_at (grid st) y x)"
      by (rule cells)
    show "wf_grid (size_n st) (grid st) \<longrightarrow>
      (\<forall>x y. 0 \<le> x \<and> x < int (size_n st) \<and> 0 \<le> y \<and> y < int (size_n st) \<longrightarrow>
         slot_at g' y x = Some (Num ((- 1) ^ count_list ?sites (x, y) * spin_at (grid st) x y)))"
      by (rule spins)
  qed
  show ?thesis
  proof (intro conjI)
    show "\<exists>g'. apply_flips (grid st) ?sites = Inr g' \<and>
               evolveSystem st rnd k = Inr (st\<lparr>grid := g'\<rparr>, sweep_end st rnd ?n k) \<and>
               (\<forall>x y. slot_at g' y x = (negated ^^ count_list ?sites (x, y)) (slot_at (grid st) y x)) \<and>
               (wf_grid (size_n st) (grid st) \<longrightarrow>
                  (\<forall>x y. 0 \<le> x \<and> x < int (size_n st) \<and> 0 \<le> y \<and> y < int (size_n st) \<longrightarrow>
                     slot_at g' y x =
                       Some (Num ((- 1) ^ count_list ?sites (x, y) * spin_at (grid st) x y))))"
      by (rule ex)
    show "length (sweep_trials st rnd ?n k) = ?n" by (rule length_sweep_trials)
    show "\<forall>t \<in> set (sweep_trials st rnd ?n k).
            (\<exists>j\<ge>k. t = (trial_site st rnd j, fst (trial_outcome st rnd j))) \<and>
            0 \<le> fst (fst t) \<and> fst (fst t) < int (size_n st) \<and>
            0 \<le> snd (fst t) \<and> snd (fst t) < int (size_n st)" by (rule sites)
    show "\<forall>j i. (fst (trial_site st rnd j) = i) =
                  (real_of_int i / real (size_n st) \<le> rnd j \<and>
                   rnd j < (real_of_int i + 1) / real (size_n st))" by (rule ux)
    show "\<forall>j i. (snd (trial_site st rnd j) = i) =
                  (real_of_int i / real (size_n st) \<le> rnd (j + 1) \<and>
                   rnd (j + 1) < (real_of_int i + 1) / real (size_n st))" by (rule uy)
    show "wf_grid (size_n st) (grid st) \<longrightarrow>
            (\<forall>j. trial_outcome st rnd j =
                   decide st rnd (j + 2) (fst (trial_site st rnd j)) (snd (trial_site st rnd j)))"
      by (rule decided)
    show "k + 2 * ?n \<le> sweep_end st rnd ?n k" using sweep_end_bounds [of k ?n st rnd] by simp
    show "sweep_end st rnd ?n k \<le> k + 3 * ?n" using sweep_end_bounds [of k ?n st rnd] by simp
  qed
qed

text \<open>
  A sweep of the example state whose first trial draws the site \<open>(4, 4)\<close> and whose other 99
  trials draw \<open>(5, 5)\<close>.  The first trial has energy change \<open>-8\<close> and is accepted; the others
  have energy change 8 and the draw \<open>1/2\<close>, and are rejected.  The sweep flips the down spin
  at \<open>(4, 4)\<close> up, leaves its neighbour \<open>(5, 4)\<close> as it was, and has read 299 draws.
\<close>

theorem evolveSystem_frozen_sweep_witness:
  "\<not> grid_not_ready ex_state \<and> (\<forall>i. 0 \<le> rnd_first i \<and> rnd_first i < 1) \<and>
   wf_grid (size_n ex_state) (grid ex_state) \<and>
   length (sweep_trials ex_state rnd_first 100 0) = 100 \<and>
   accepted_sites (sweep_trials ex_state rnd_first 100 0) = [(4, 4)] \<and>
   slot_at (grid ex_state) 4 4 = Some (Num (- 1)) \<and>
   slot_at (grid ex_state) 4 5 = Some (Num 1) \<and>
   (\<exists>g'. evolveSystem ex_state rnd_first 0 = Inr (ex_state\<lparr>grid := g'\<rparr>, 299) \<and>
         slot_at g' 4 4 = Some (Num 1) \<and> slot_at g' 4 5 = Some (Num 1))"
proof -
  have draws: "\<forall>i. 0 \<le> rnd_first i \<and> rnd_first i < 1" by (simp add: rnd_first_def)
  have n: "size_n ex_state * size_n ex_state = 100" by (simp add: ex_state_def)
  have wf: "wf_grid (size_n ex_state) (grid ex_state)" using ex_wf by (simp add: ex_state_def)
  have g: "grid ex_state = ex_grid" by (simp add: ex_state_def)
  note sweep = evolveSystem_frozen_sweep [OF ex_ready draws, of 0, unfolded n ex_sweep_accepted ex_sweep(2)]
  from sweep obtain g' where
    run: "evolveSystem ex_state rnd_first 0 = Inr (ex_state\<lparr>grid := g'\<rparr>, 299)"
    and cells: "\<forall>x y. slot_at g' y x = (negated ^^ count_list [(4, 4)] (x, y)) (slot_at (grid ex_state) y x)"
    by blast
  from cells have "slot_at g' 4 4 = Some (Num 1)" "slot_at g' 4 5 = Some (Num 1)"
    by (simp_all add: g ex_slots negated_def)
  with run have "\<exists>g'. evolveSystem ex_state rnd_first 0 = Inr (ex_state\<lparr>grid := g'\<rparr>, 299) \<and>
         slot_at g' 4 4 = Some (Num 1) \<and> slot_at g' 4 5 = Some (Num 1)"
    by blast
  with ex_ready draws wf sweep ex_sweep_accepted show ?thesis
    by (simp add: g ex_slots)
qed

section \<open>The paint loops visit the bounding box in scan order\<close>

lemma paint_cell_decide:
  "paint_cell st rnd cx cy r y x (g, k) =
     (if in_shape (drawMode st) cx cy r x y
      then if fst (decide st rnd k x y)
           then map_sum id (\<lambda>g'. (g', snd (decide st rnd k x y))) (flip_at g y x)
           else Inr (g, snd (decide st rnd k x y))
      else Inr (g, k))"
  by (auto simp: paint_cell_def decide_cases Let_def split: jsnum.splits)

lemma paint_plan_append:
  "paint_plan st rnd cx cy r (a @ b) k =
     paint_plan st rnd cx cy r a k @ paint_plan st rnd cx cy r b (paint_end st rnd cx cy r a k)"
  by (induction a arbitrary: k) auto

lemma paint_end_append:
  "paint_end st rnd cx cy r (a @ b) k = paint_end st rnd cx cy r b (paint_end st rnd cx cy r a k)"
  by (induction a arbitrary: k) auto

lemma paint_row_plan:
  "paint_row st rnd cx cy r y xs (g, k) =
     map_sum id (\<lambda>g'. (g', paint_end st rnd cx cy r (map (\<lambda>x. (x, y)) xs) k))
       (apply_flips g (accepted_sites (paint_plan st rnd cx cy r (map (\<lambda>x. (x, y)) xs) k)))"
proof (induction xs arbitrary: g k)
  case Nil
  show ?case by (simp add: accepted_sites_Nil)
next
  case (Cons x xs)
  show ?case
  proof (cases "in_shape (drawMode st) cx cy r x y \<and> fst (decide st rnd k x y)")
    case False
    then show ?thesis
      by (auto simp: paint_cell_decide Cons.IH accepted_sites_Cons)
  next
    case True
    show ?thesis
    proof (cases "flip_at g y x")
      case (Inl e)
      with True show ?thesis by (simp add: paint_cell_decide accepted_sites_Cons)
    next
      case (Inr g1)
      with True show ?thesis by (simp add: paint_cell_decide accepted_sites_Cons Cons.IH)
    qed
  qed
qed

lemma paint_rows_plan:
  "paint_rows st rnd cx cy r ys xs (g, k) =
     map_sum id (\<lambda>g'. (g', paint_end st rnd cx cy r (scan_order ys xs) k))
       (apply_flips g (accepted_sites (paint_plan st rnd cx cy r (scan_order ys xs) k)))"
proof (induction ys arbitrary: g k)
  case Nil
  show ?case by (simp add: scan_order_def accepted_sites_Nil)
next
  case (Cons y ys)
  let ?row = "map (\<lambda>x. (x, y)) xs"
  have so: "scan_order (y # ys) xs = ?row @ scan_order ys xs" by (simp add: scan_order_def)
  show ?case
  proof (cases "apply_flips g (accepted_sites (paint_plan st rnd cx cy r ?row k))")
    case (Inl e)
    then show ?thesis
      by (simp add: so paint_row_plan paint_plan_append paint_end_append
            accepted_sites_append apply_flips_append)
  next
    case (Inr g1)
    then show ?thesis
      by (simp add: so paint_row_plan paint_plan_append paint_end_append
            accepted_sites_append apply_flips_append Cons.IH)
  qed
qed

lemma paint_plan_sites:
  "map fst (paint_plan st rnd cx cy r cs k) = filter (\<lambda>(x, y). in_shape (drawMode st) cx cy r x y) cs"
  by (induction cs arbitrary: k) auto

lemma paint_plan_decided:
  "((x, y), a) \<in> set (paint_plan st rnd cx cy r cs k)
   \<Longrightarrow> \<exists>j\<ge>k. a = fst (decide st rnd j x y)"
proof (induction cs arbitrary: k)
  case Nil
  then show ?case by simp
next
  case (Cons c cs)
  obtain x1 y1 where c: "c = (x1, y1)" by (cases c)
  have step: "k \<le> snd (decide st rnd k x1 y1)"
    by (auto simp: decide_cases split: jsnum.splits)
  show ?case
  proof (cases "in_shape (drawMode st) cx cy r x1 y1")
    case False
    with Cons c show ?thesis by simp
  next
    case True
    show ?thesis
    proof (cases "((x, y), a) = ((x1, y1), fst (decide st rnd k x1 y1))")
      case True
      then show ?thesis by blast
    next
      case False
      with Cons.prems c \<open>in_shape (drawMode st) cx cy r x1 y1\<close>
      have "((x, y), a) \<in> set (paint_plan st rnd cx cy r cs (snd (decide st rnd k x1 y1)))"
        by auto
      from Cons.IH [OF this] step show ?thesis by (meson le_trans)
    qed
  qed
qed

lemma distinct_scan_order: "distinct ys \<Longrightarrow> distinct xs \<Longrightarrow> distinct (scan_order ys xs)"
proof (induction ys)
  case Nil
  show ?case by (simp add: scan_order_def)
next
  case (Cons y ys)
  have so: "scan_order (y # ys) xs = map (\<lambda>x. (x, y)) xs @ scan_order ys xs"
    by (simp add: scan_order_def)
  have row: "distinct (map (\<lambda>x. (x, y)) xs)"
    using Cons.prems by (simp add: distinct_map inj_on_def)
  have disj: "set (map (\<lambda>x. (x, y)) xs) \<inter> set (scan_order ys xs) = {}"
    using Cons.prems by (auto simp: scan_order_def)
  from Cons row disj show ?case by (simp add: so)
qed

lemma set_scan_order: "set (scan_order ys xs) = {(x, y). x \<in> set xs \<and> y \<in> set ys}"
  by (auto simp: scan_order_def)

lemma set_paint_box:
  "(x, y) \<in> set (paint_box st cx cy r) \<longleftrightarrow>
     xStart cx r \<le> x \<and> x \<le> xEnd (size_n st) cx r \<and>
     xStart cy r \<le> y \<and> y \<le> xEnd (size_n st) cy r"
  by (auto simp: paint_box_def set_scan_order)

lemma distinct_paint_box: "distinct (paint_box st cx cy r)"
  by (simp add: paint_box_def distinct_scan_order)

lemma box_bounds: "0 \<le> xStart c r \<and> xEnd n c r \<le> int n - 1"
  by (simp add: xStart_def xEnd_def)

section \<open>The lattice after a paint\<close>

lemma paint_box_rows:
  "(x, y) \<in> set (paint_box st cx cy r) \<Longrightarrow>
     0 \<le> x \<and> x < int (size_n st) \<and> 0 \<le> y \<and> y < int (size_n st)"
  using box_bounds [of cx r "size_n st"] box_bounds [of cy r "size_n st"]
  by (auto simp: set_paint_box)

lemma paint_plan_in_box:
  assumes "((x, y), a) \<in> set (paint_plan st rnd cx cy r cs k)"
  shows "(x, y) \<in> set cs \<and> in_shape (drawMode st) cx cy r x y"
proof -
  from assms have "(x, y) \<in> set (map fst (paint_plan st rnd cx cy r cs k))" by force
  then show ?thesis by (simp add: paint_plan_sites)
qed

lemma accepted_sites_mem: "c \<in> set (accepted_sites ts) \<longleftrightarrow> (c, True) \<in> set ts"
  by (force simp: accepted_sites_def)

lemma distinct_accepted_sites: "distinct (map fst ts) \<Longrightarrow> distinct (accepted_sites ts)"
  by (simp add: accepted_sites_def distinct_map_filter)

lemma paint_result:
  assumes ready: "\<not> grid_not_ready st"
  shows "\<exists>g'. apply_flips (grid st)
                (accepted_sites (paint_plan st rnd cx cy r (paint_box st cx cy r) k)) = Inr g' \<and>
              flipSpinsInRadius st rnd k cx cy r =
                Inr (st\<lparr>grid := g'\<rparr>, paint_end st rnd cx cy r (paint_box st cx cy r) k)"
proof -
  let ?plan = "paint_plan st rnd cx cy r (paint_box st cx cy r) k"
  from ready have len: "length (grid st) = size_n st" by (simp add: ready_pos)
  have "\<forall>(x, y) \<in> set (accepted_sites ?plan). 0 \<le> y \<and> y < int (length (grid st))"
  proof clarify
    fix x y assume "(x, y) \<in> set (accepted_sites ?plan)"
    then have "((x, y), True) \<in> set ?plan" by (simp add: accepted_sites_mem)
    then have "(x, y) \<in> set (paint_box st cx cy r)" by (simp add: paint_plan_in_box)
    with len show "0 \<le> y \<and> y < int (length (grid st))" using paint_box_rows by simp
  qed
  from apply_flips_defined [OF this] obtain g' where
    g': "apply_flips (grid st) (accepted_sites ?plan) = Inr g'" by blast
  with ready have "flipSpinsInRadius st rnd k cx cy r =
      Inr (st\<lparr>grid := g'\<rparr>, paint_end st rnd cx cy r (paint_box st cx cy r) k)"
    by (simp add: flipSpinsInRadius_def paint_rows_plan paint_box_def)
  with g' show ?thesis by blast
qed

lemma paint_cells:
  assumes g': "apply_flips (grid st)
                (accepted_sites (paint_plan st rnd cx cy r (paint_box st cx cy r) k)) = Inr g'"
  shows "slot_at g' y x =
           (if ((x, y), True) \<in> set (paint_plan st rnd cx cy r (paint_box st cx cy r) k)
            then Some (js_negate (slot_at (grid st) y x)) else slot_at (grid st) y x)"
proof -
  let ?plan = "paint_plan st rnd cx cy r (paint_box st cx cy r) k"
  have d: "distinct (accepted_sites ?plan)"
    by (rule distinct_accepted_sites) (simp add: paint_plan_sites distinct_paint_box)
  show ?thesis
  proof (cases "((x, y), True) \<in> set ?plan")
    case True
    then have mem: "(x, y) \<in> set (accepted_sites ?plan)" by (simp add: accepted_sites_mem)
    from True have "(x, y) \<in> set (paint_box st cx cy r)" by (simp add: paint_plan_in_box)
    then have "0 \<le> x" using paint_box_rows by simp
    from apply_flips_distinct [OF g' d mem this] True show ?thesis by simp
  next
    case False
    then have "(x, y) \<notin> set (accepted_sites ?plan)" by (simp add: accepted_sites_mem)
    from apply_flips_frame [OF g' this] False show ?thesis by simp
  qed
qed

lemma ex_box: "paint_box ex_state (9 / 2) 4 1 =
   [(3,3),(4,3),(5,3),(6,3),(3,4),(4,4),(5,4),(6,4),(3,5),(4,5),(5,5),(6,5)]"
  by (simp add: paint_box_def scan_order_def xStart_def xEnd_def ex_state_def)

lemma ex_dE_54: "calculateDeltaE ex_state 5 4 = Num 0"
  using ex_ready
  by (simp add: calculateDeltaE_def neighbors_def smod_int_alt_def slot_at_def row_at_def
        ex_state_def ex_grid_def)

lemma ex_shape:
  "in_shape (drawMode ex_state) (9 / 2) 4 1 x y \<longleftrightarrow>
     (real_of_int x - 9 / 2) * (real_of_int x - 9 / 2) + (real_of_int y - 4) * (real_of_int y - 4) \<le> 1"
  by (simp add: in_shape_def ex_state_def Let_def)

lemma ex_plan:
  "paint_plan ex_state rnd_half (9 / 2) 4 1 (paint_box ex_state (9 / 2) 4 1) 0 =
     [((4, 4), True), ((5, 4), True)]"
  by (simp add: ex_box ex_shape decide_cases ex_dE_44 ex_dE_54)

lemma ex_code:
  "cell_after (flipSpinsInRadius ex_state rnd_half 0 (9 / 2) 4 1) x y =
     (if (x, y) = (4, 4) \<or> (x, y) = (5, 4) then Some (js_negate (slot_at ex_grid y x))
      else slot_at ex_grid y x)"
proof -
  from paint_result [OF ex_ready, of rnd_half "9 / 2" 4 1 0] obtain g' where
    g': "apply_flips (grid ex_state)
           (accepted_sites (paint_plan ex_state rnd_half (9 / 2) 4 1
              (paint_box ex_state (9 / 2) 4 1) 0)) = Inr g'"
    and run: "flipSpinsInRadius ex_state rnd_half 0 (9 / 2) 4 1 =
           Inr (ex_state\<lparr>grid := g'\<rparr>,
                paint_end ex_state rnd_half (9 / 2) 4 1 (paint_box ex_state (9 / 2) 4 1) 0)"
    by blast
  have g: "grid ex_state = ex_grid" by (simp add: ex_state_def)
  from paint_cells [OF g', of y x] run show ?thesis
    by (auto simp: cell_after_def ex_plan g)
qed

lemma ex_live:
  "cell_after (paintRegion_live ex_state rnd_half 0 (9 / 2) 4 1) 5 4 = Some (Num 1)"
  using ex_ready exp_minus_two
  apply (simp add: paintRegion_live_def ex_box ex_shape cell_after_def)
  apply (simp add: decide_cases ex_state_def calculateDeltaE_def grid_not_ready_def
        neighbors_def smod_int_alt_def slot_at_def row_at_def flip_at_def store_at_def js_negate_def
        ex_grid_def rnd_half_def in_shape_def)
  done

section \<open>The paint decides on the lattice before the paint\<close>

lemma ex_end:
  "paint_end ex_state rnd_half (9 / 2) 4 1 (paint_box ex_state (9 / 2) 4 1) 0 = 0"
  by (simp add: ex_box ex_shape decide_cases ex_dE_44 ex_dE_54)

text \<open>
  Claim C1, as amended.  \<^verbatim>\<open>flipSpinsInRadius\<close> calls \<^verbatim>\<open>calculateDeltaE\<close>, which reads the state
  variable \<^verbatim>\<open>grid\<close>, and writes its flips into the copy \<^verbatim>\<open>newGrid\<close>.  So every member cell
  is decided on the lattice before the paint, exactly as in the full sweep: the decisions
  \<open>paint_plan\<close> are computed from the state before the paint alone, the result is that lattice
  with the accepted cells negated, and a cell is negated if and only if its own decision on
  the lattice before the paint accepts.  Later cells do not see the flips of earlier cells.
\<close>

theorem flipSpinsInRadius_frozen:
  assumes ready: "\<not> grid_not_ready st"
  shows "\<exists>g'. flipSpinsInRadius st rnd k cx cy r =
               Inr (st\<lparr>grid := g'\<rparr>, paint_end st rnd cx cy r (paint_box st cx cy r) k) \<and>
             apply_flips (grid st)
               (accepted_sites (paint_plan st rnd cx cy r (paint_box st cx cy r) k)) = Inr g' \<and>
             (\<forall>x y. slot_at g' y x =
                (if ((x, y), True) \<in> set (paint_plan st rnd cx cy r (paint_box st cx cy r) k)
                 then Some (js_negate (slot_at (grid st) y x)) else slot_at (grid st) y x)) \<and>
             (\<forall>x y a. ((x, y), a) \<in> set (paint_plan st rnd cx cy r (paint_box st cx cy r) k) \<longrightarrow>
                (x, y) \<in> set (paint_box st cx cy r) \<and> in_shape (drawMode st) cx cy r x y \<and>
                (\<exists>j\<ge>k. a = fst (decide st rnd j x y)))"
proof -
  let ?plan = "paint_plan st rnd cx cy r (paint_box st cx cy r) k"
  from paint_result [OF ready, of rnd cx cy r k] obtain g' where
    g': "apply_flips (grid st) (accepted_sites ?plan) = Inr g'"
    and run: "flipSpinsInRadius st rnd k cx cy r =
           Inr (st\<lparr>grid := g'\<rparr>, paint_end st rnd cx cy r (paint_box st cx cy r) k)"
    by blast
  have cells: "\<forall>x y. slot_at g' y x =
      (if ((x, y), True) \<in> set ?plan then Some (js_negate (slot_at (grid st) y x))
       else slot_at (grid st) y x)"
    using paint_cells [OF g'] by blast
  have plan: "\<forall>x y a. ((x, y), a) \<in> set ?plan \<longrightarrow>
      (x, y) \<in> set (paint_box st cx cy r) \<and> in_shape (drawMode st) cx cy r x y \<and>
      (\<exists>j\<ge>k. a = fst (decide st rnd j x y))"
  proof (intro allI impI)
    fix x y a assume m: "((x, y), a) \<in> set ?plan"
    from paint_plan_in_box [OF m] paint_plan_decided [OF m]
    show "(x, y) \<in> set (paint_box st cx cy r) \<and> in_shape (drawMode st) cx cy r x y \<and>
      (\<exists>j\<ge>k. a = fst (decide st rnd j x y))" by simp
  qed
  from run g' cells plan show ?thesis by blast
qed

text \<open>
  On the example state a paint of radius 1 centred at \<open>(4.5, 4)\<close> covers the cells \<open>(4, 4)\<close>
  and \<open>(5, 4)\<close>.  Both have an energy change \<open>\<le> 0\<close> on the lattice before the paint, and
  both are flipped.
\<close>

theorem flipSpinsInRadius_frozen_witness:
  "\<not> grid_not_ready ex_state \<and>
   (\<exists>g'. flipSpinsInRadius ex_state rnd_half 0 (9 / 2) 4 1 = Inr (ex_state\<lparr>grid := g'\<rparr>, 0) \<and>
         slot_at g' 4 4 = Some (Num 1) \<and> slot_at g' 4 5 = Some (Num (- 1)))"
proof -
  have g: "grid ex_state = ex_grid" by (simp add: ex_state_def)
  from flipSpinsInRadius_frozen [OF ex_ready, of rnd_half 0 "9 / 2" 4 1] obtain g' where
    run: "flipSpinsInRadius ex_state rnd_half 0 (9 / 2) 4 1 = Inr (ex_state\<lparr>grid := g'\<rparr>, 0)"
    and cells: "\<forall>x y. slot_at g' y x =
      (if ((x, y), True) \<in> set [((4, 4), True), ((5, 4), True)]
       then Some (js_negate (slot_at ex_grid y x)) else slot_at ex_grid y x)"
    unfolding ex_plan ex_end g by blast
  from cells have "slot_at g' 4 4 = Some (Num 1)" "slot_at g' 4 5 = Some (Num (- 1))"
    by (simp_all add: ex_slots js_negate_def)
  with run ex_ready show ?thesis by blast
qed

text \<open>
  Claim C1 as stated fails.  In the same paint, once \<open>(4, 4)\<close> has been flipped up the cell
  \<open>(5, 4)\<close> has three up neighbours on the working copy: its energy change there is \<open>4\<close>,
  and the draw \<open>1/2\<close> is not below \<open>exp (- 4 / 2)\<close>, so a paint that decided on the working
  copy would keep \<open>(5, 4)\<close> up.  The source flips it down.
\<close>

theorem paint_live_counterexample:
  "cell_after (flipSpinsInRadius ex_state rnd_half 0 (9 / 2) 4 1) 5 4 = Some (Num (- 1)) \<and>
   cell_after (paintRegion_live ex_state rnd_half 0 (9 / 2) 4 1) 5 4 = Some (Num 1) \<and>
   flipSpinsInRadius ex_state rnd_half 0 (9 / 2) 4 1 \<noteq> paintRegion_live ex_state rnd_half 0 (9 / 2) 4 1"
proof -
  have code: "cell_after (flipSpinsInRadius ex_state rnd_half 0 (9 / 2) 4 1) 5 4 = Some (Num (- 1))"
    by (simp add: ex_code ex_slots js_negate_def)
  have live: "cell_after (paintRegion_live ex_state rnd_half 0 (9 / 2) 4 1) 5 4 = Some (Num 1)"
    by (rule ex_live)
  from code live have "flipSpinsInRadius ex_state rnd_half 0 (9 / 2) 4 1 \<noteq>
      paintRegion_live ex_state rnd_half 0 (9 / 2) 4 1"
    by auto
  with code live show ?thesis by blast
qed

section \<open>Cells of the region\<close>

lemma in_shape_formula:
  "in_shape mode cx cy r x y \<longleftrightarrow>
     (mode = ''circle'' \<and>
        (real_of_int x - cx) * (real_of_int x - cx) + (real_of_int y - cy) * (real_of_int y - cy) \<le> r * r) \<or>
     (mode = ''square'' \<and> \<bar>real_of_int x - cx\<bar> \<le> r \<and> \<bar>real_of_int y - cy\<bar> \<le> r)"
  by (auto simp: in_shape_def Let_def)

lemma square_le_abs:
  assumes "0 \<le> (r::real)" "a * a + b * b \<le> r * r"
  shows "\<bar>a\<bar> \<le> r"
proof -
  have "0 \<le> b * b" by simp
  with assms have "a * a \<le> r * r" by linarith
  then have "a\<^sup>2 \<le> r\<^sup>2" by (simp add: power2_eq_square)
  then have "\<bar>a\<bar> \<le> \<bar>r\<bar>" by (simp only: abs_le_square_iff)
  with assms show ?thesis by simp
qed

lemma in_shape_abs:
  assumes "0 \<le> r" "in_shape mode cx cy r x y"
  shows "\<bar>real_of_int x - cx\<bar> \<le> r \<and> \<bar>real_of_int y - cy\<bar> \<le> r"
proof -
  from assms(2) consider
    (circle) "(real_of_int x - cx) * (real_of_int x - cx) + (real_of_int y - cy) * (real_of_int y - cy) \<le> r * r"
    | (square) "\<bar>real_of_int x - cx\<bar> \<le> r \<and> \<bar>real_of_int y - cy\<bar> \<le> r"
    by (auto simp: in_shape_formula)
  then show ?thesis
  proof cases
    case circle
    from square_le_abs [OF assms(1) circle] have a: "\<bar>real_of_int x - cx\<bar> \<le> r" .
    from circle have "(real_of_int y - cy) * (real_of_int y - cy) + (real_of_int x - cx) * (real_of_int x - cx) \<le> r * r"
      by simp
    from square_le_abs [OF assms(1) this] a show ?thesis by simp
  next
    case square
    then show ?thesis .
  qed
qed

lemma abs_in_range:
  assumes "\<bar>real_of_int i - c\<bar> \<le> r" "0 \<le> i" "i < int n"
  shows "xStart c r \<le> i \<and> i \<le> xEnd n c r"
proof -
  from assms have lo: "c - r \<le> real_of_int i" and hi: "real_of_int i \<le> c + r" by linarith+
  from lo have "\<lfloor>c - r\<rfloor> \<le> i" by (simp add: floor_le_iff)
  moreover from hi have "i \<le> \<lceil>c + r\<rceil>" by (simp add: le_ceiling_iff)
  ultimately show ?thesis using assms by (simp add: xStart_def xEnd_def)
qed

lemma paint_plan_accepts:
  assumes "(x, y) \<in> set cs" "in_shape (drawMode st) cx cy r x y"
    "calculateDeltaE st x y = Num d" "d \<le> 0"
  shows "((x, y), True) \<in> set (paint_plan st rnd cx cy r cs k)"
  using assms(1)
proof (induction cs arbitrary: k)
  case Nil
  then show ?case by simp
next
  case (Cons c cs)
  obtain x1 y1 where c: "c = (x1, y1)" by (cases c)
  show ?case
  proof (cases "(x, y) = (x1, y1)")
    case True
    with c assms show ?thesis by (simp add: decide_cases)
  next
    case False
    with Cons c have "((x, y), True) \<in> set (paint_plan st rnd cx cy r cs k')" for k'
      by auto
    with c show ?thesis by simp
  qed
qed

lemma paint_changed_cell:
  assumes g': "apply_flips (grid st)
                (accepted_sites (paint_plan st rnd cx cy r (paint_box st cx cy r) k)) = Inr g'"
    and ne: "slot_at g' y x \<noteq> slot_at (grid st) y x"
  shows "in_shape (drawMode st) cx cy r x y \<and>
         xStart cx r \<le> x \<and> x \<le> xEnd (size_n st) cx r \<and>
         xStart cy r \<le> y \<and> y \<le> xEnd (size_n st) cy r \<and>
         0 \<le> x \<and> x < int (size_n st) \<and> 0 \<le> y \<and> y < int (size_n st)"
proof -
  let ?plan = "paint_plan st rnd cx cy r (paint_box st cx cy r) k"
  have "((x, y), True) \<in> set ?plan"
  proof (rule ccontr)
    assume "((x, y), True) \<notin> set ?plan"
    with paint_cells [OF g', of y x] have "slot_at g' y x = slot_at (grid st) y x" by simp
    with ne show False by simp
  qed
  from paint_plan_in_box [OF this]
  have box: "(x, y) \<in> set (paint_box st cx cy r)" and sh: "in_shape (drawMode st) cx cy r x y"
    by simp_all
  from box have b: "xStart cx r \<le> x \<and> x \<le> xEnd (size_n st) cx r \<and>
      xStart cy r \<le> y \<and> y \<le> xEnd (size_n st) cy r"
    by (simp only: set_paint_box)
  from sh b paint_box_rows [OF box] show ?thesis by (intro conjI) simp_all
qed

lemma paint_member_cell:
  assumes g': "apply_flips (grid st)
                (accepted_sites (paint_plan st rnd cx cy r (paint_box st cx cy r) k)) = Inr g'"
    and r: "0 \<le> r"
    and x: "0 \<le> x" "x < int (size_n st)" and y: "0 \<le> y" "y < int (size_n st)"
    and sh: "in_shape (drawMode st) cx cy r x y"
    and dE: "calculateDeltaE st x y = Num d" "d \<le> 0"
  shows "slot_at g' y x = Some (js_negate (slot_at (grid st) y x))"
proof -
  let ?plan = "paint_plan st rnd cx cy r (paint_box st cx cy r) k"
  from in_shape_abs [OF r sh]
  have a: "\<bar>real_of_int x - cx\<bar> \<le> r" "\<bar>real_of_int y - cy\<bar> \<le> r" by simp_all
  from abs_in_range [OF a(1) x] abs_in_range [OF a(2) y]
  have "(x, y) \<in> set (paint_box st cx cy r)" by (simp only: set_paint_box simp_thms)
  from paint_plan_accepts [OF this sh dE] have "((x, y), True) \<in> set ?plan" .
  with paint_cells [OF g', of y x] show ?thesis by simp
qed


text \<open>
  Claim C6.  A paint with centre \<open>(cx, cy)\<close> and radius \<open>r\<close> never raises and never rejects its
  coordinates.  Every cell whose content differs after the paint lies inside the region
  (circle mode: \<open>dx dx + dy dy \<le> r r\<close>; square mode: \<open>|dx| \<le> r\<close> and \<open>|dy| \<le> r\<close>, with
  \<open>dx\<close> and \<open>dy\<close> measured from the fractional centre) and inside the bounding box, whose
  bounds \<open>max 0 \<lfloor>c - r\<rfloor>\<close> and \<open>min (N - 1) \<lceil>c + r\<rceil>\<close> are clamped to the lattice; so every cell
  outside the region holds exactly what it held before.  For a radius \<open>r \<ge> 0\<close> the clamped
  box misses no lattice cell of the region, wherever the centre is: each such cell whose
  energy change is \<open>\<le> 0\<close> is negated.
\<close>

theorem flipSpinsInRadius_frame:
  "\<exists>st' k'. flipSpinsInRadius st rnd k cx cy r = Inr (st', k') \<and>
     (\<forall>x y. slot_at (grid st') y x \<noteq> slot_at (grid st) y x \<longrightarrow>
        ((drawMode st = ''circle'' \<and>
            (real_of_int x - cx) * (real_of_int x - cx) + (real_of_int y - cy) * (real_of_int y - cy) \<le> r * r) \<or>
         (drawMode st = ''square'' \<and> \<bar>real_of_int x - cx\<bar> \<le> r \<and> \<bar>real_of_int y - cy\<bar> \<le> r)) \<and>
        max 0 \<lfloor>cx - r\<rfloor> \<le> x \<and> x \<le> min (int (size_n st) - 1) \<lceil>cx + r\<rceil> \<and>
        max 0 \<lfloor>cy - r\<rfloor> \<le> y \<and> y \<le> min (int (size_n st) - 1) \<lceil>cy + r\<rceil> \<and>
        0 \<le> x \<and> x < int (size_n st) \<and> 0 \<le> y \<and> y < int (size_n st)) \<and>
     (\<not> grid_not_ready st \<and> 0 \<le> r \<longrightarrow>
        (\<forall>x y d. 0 \<le> x \<and> x < int (size_n st) \<and> 0 \<le> y \<and> y < int (size_n st) \<and>
                 in_shape (drawMode st) cx cy r x y \<and> calculateDeltaE st x y = Num d \<and> d \<le> 0
           \<longrightarrow> slot_at (grid st') y x = Some (js_negate (slot_at (grid st) y x))))"
proof (cases "grid_not_ready st")
  case True
  then have run: "flipSpinsInRadius st rnd k cx cy r = Inr (st, k)"
    by (simp add: flipSpinsInRadius_def)
  show ?thesis
  proof (intro exI conjI allI impI)
    show "flipSpinsInRadius st rnd k cx cy r = Inr (st, k)" by (rule run)
  qed (use True in \<open>simp_all only: not_True_eq_False simp_thms\<close>)
next
  case ready: False
  let ?plan = "paint_plan st rnd cx cy r (paint_box st cx cy r) k"
  let ?st' = "st\<lparr>grid := g'\<rparr>"
  from paint_result [OF ready, of rnd cx cy r k] obtain g' where
    g': "apply_flips (grid st) (accepted_sites ?plan) = Inr g'"
    and run: "flipSpinsInRadius st rnd k cx cy r =
           Inr (st\<lparr>grid := g'\<rparr>, paint_end st rnd cx cy r (paint_box st cx cy r) k)"
    by blast
  have gs: "grid (st\<lparr>grid := g'\<rparr>) = g'" by simp
  show ?thesis
  proof (intro exI conjI allI impI)
    show "flipSpinsInRadius st rnd k cx cy r =
           Inr (st\<lparr>grid := g'\<rparr>, paint_end st rnd cx cy r (paint_box st cx cy r) k)" by (rule run)
  next
    fix x y assume "slot_at (grid (st\<lparr>grid := g'\<rparr>)) y x \<noteq> slot_at (grid st) y x"
    then have ne: "slot_at g' y x \<noteq> slot_at (grid st) y x" unfolding gs .
    note c = paint_changed_cell [OF g' ne]
    from c show "(drawMode st = ''circle'' \<and>
            (real_of_int x - cx) * (real_of_int x - cx) + (real_of_int y - cy) * (real_of_int y - cy) \<le> r * r) \<or>
         (drawMode st = ''square'' \<and> \<bar>real_of_int x - cx\<bar> \<le> r \<and> \<bar>real_of_int y - cy\<bar> \<le> r)"
      by (simp only: in_shape_formula)
    from c show "max 0 \<lfloor>cx - r\<rfloor> \<le> x" by (simp only: xStart_def)
    from c show "x \<le> min (int (size_n st) - 1) \<lceil>cx + r\<rceil>" by (simp only: xEnd_def)
    from c show "max 0 \<lfloor>cy - r\<rfloor> \<le> y" by (simp only: xStart_def)
    from c show "y \<le> min (int (size_n st) - 1) \<lceil>cy + r\<rceil>" by (simp only: xEnd_def)
    from c show "0 \<le> x" by (simp only:)
    from c show "x < int (size_n st)" by (simp only:)
    from c show "0 \<le> y" by (simp only:)
    from c show "y < int (size_n st)" by (simp only:)
  next
    fix x y d
    assume h: "\<not> grid_not_ready st \<and> 0 \<le> r"
      and c: "0 \<le> x \<and> x < int (size_n st) \<and> 0 \<le> y \<and> y < int (size_n st) \<and>
                 in_shape (drawMode st) cx cy r x y \<and> calculateDeltaE st x y = Num d \<and> d \<le> 0"
    from h have r: "0 \<le> r" by (rule conjunct2)
    from c have x: "0 \<le> x" "x < int (size_n st)" and y: "0 \<le> y" "y < int (size_n st)"
      and sh: "in_shape (drawMode st) cx cy r x y"
      and dE: "calculateDeltaE st x y = Num d" "d \<le> 0"
      by (simp_all only:)
    from paint_member_cell [OF g' r x y sh dE]
    show "slot_at (grid (st\<lparr>grid := g'\<rparr>)) y x = Some (js_negate (slot_at (grid st) y x))"
      unfolding gs .
  qed
qed


text \<open>In the example paint the cell \<open>(4, 4)\<close> changes, and it lies in the circle and in the box.\<close>

theorem flipSpinsInRadius_frame_witness:
  "\<exists>st' k'. flipSpinsInRadius ex_state rnd_half 0 (9 / 2) 4 1 = Inr (st', k') \<and>
     slot_at (grid st') 4 4 \<noteq> slot_at (grid ex_state) 4 4 \<and>
     drawMode ex_state = ''circle'' \<and>
     (real_of_int 4 - 9 / 2) * (real_of_int 4 - 9 / 2) + (real_of_int 4 - 4) * (real_of_int 4 - 4) \<le> (1::real) * 1 \<and>
     max 0 \<lfloor>9 / 2 - (1::real)\<rfloor> \<le> (4::int) \<and> (4::int) \<le> min (int (size_n ex_state) - 1) \<lceil>9 / 2 + (1::real)\<rceil>"
proof -
  from flipSpinsInRadius_frame [of ex_state rnd_half 0 "9 / 2" 4 1] obtain st' k' where
    run: "flipSpinsInRadius ex_state rnd_half 0 (9 / 2) 4 1 = Inr (st', k')"
    and changed: "\<forall>x y. slot_at (grid st') y x \<noteq> slot_at (grid ex_state) y x \<longrightarrow>
        ((drawMode ex_state = ''circle'' \<and>
            (real_of_int x - 9 / 2) * (real_of_int x - 9 / 2) + (real_of_int y - 4) * (real_of_int y - 4) \<le> (1::real) * 1) \<or>
         (drawMode ex_state = ''square'' \<and> \<bar>real_of_int x - 9 / 2\<bar> \<le> (1::real) \<and> \<bar>real_of_int y - 4\<bar> \<le> (1::real))) \<and>
        max 0 \<lfloor>9 / 2 - (1::real)\<rfloor> \<le> x \<and> x \<le> min (int (size_n ex_state) - 1) \<lceil>9 / 2 + (1::real)\<rceil> \<and>
        max 0 \<lfloor>4 - (1::real)\<rfloor> \<le> y \<and> y \<le> min (int (size_n ex_state) - 1) \<lceil>4 + (1::real)\<rceil> \<and>
        0 \<le> x \<and> x < int (size_n ex_state) \<and> 0 \<le> y \<and> y < int (size_n ex_state)"
    by blast
  have "cell_after (flipSpinsInRadius ex_state rnd_half 0 (9 / 2) 4 1) 4 4 = Some (Num 1)"
    by (simp add: ex_code ex_slots js_negate_def)
  with run have ne: "slot_at (grid st') 4 4 \<noteq> slot_at (grid ex_state) 4 4"
    by (simp add: cell_after_def ex_slots ex_state_def)
  have mode: "drawMode ex_state = ''circle''" by (simp add: ex_state_def)
  from changed [rule_format, OF ne] mode
  have "(real_of_int 4 - 9 / 2) * (real_of_int 4 - 9 / 2) + (real_of_int 4 - 4) * (real_of_int 4 - 4) \<le> (1::real) * 1"
    and "max 0 \<lfloor>9 / 2 - (1::real)\<rfloor> \<le> (4::int)"
    and "(4::int) \<le> min (int (size_n ex_state) - 1) \<lceil>9 / 2 + (1::real)\<rceil>"
    by simp_all
  with run ne mode show ?thesis by blast
qed

section \<open>Well-formedness is established and preserved\<close>

lemma newGrid_of_wf: "wf_grid n (newGrid_of n pattern rnd k)"
  by (simp add: wf_grid_nth newGrid_of_def is_spin_def)

lemma initializeGrid_fields:
  "grid (fst (initializeGrid n p st rnd k)) = newGrid_of n p rnd k"
  "size_n (fst (initializeGrid n p st rnd k)) = size_n st"
  "isPlaying (fst (initializeGrid n p st rnd k)) = isPlaying st"
  "initialPattern (fst (initializeGrid n p st rnd k)) = initialPattern st"
  "magnetizationHistory (fst (initializeGrid n p st rnd k)) = []"
  "gridInitialized (fst (initializeGrid n p st rnd k))"
  by (simp_all add: initializeGrid_def)

lemma reinitEffects_same:
  "size_n cur = size_n prev \<Longrightarrow> initialPattern cur = initialPattern prev
   \<Longrightarrow> reinitEffects prev cur rnd k = (cur, k)"
  by (simp add: reinitEffects_def)

lemma reinitEffects_changed:
  assumes "size_n cur \<noteq> size_n prev \<or> initialPattern cur \<noteq> initialPattern prev"
  shows "wf_grid (size_n (fst (reinitEffects prev cur rnd k))) (grid (fst (reinitEffects prev cur rnd k)))"
    and "\<not> isPlaying (fst (reinitEffects prev cur rnd k))"
    and "size_n (fst (reinitEffects prev cur rnd k)) = size_n cur"
    and "initialPattern (fst (reinitEffects prev cur rnd k)) = initialPattern cur"
  using assms by (auto simp: reinitEffects_def Let_def initializeGrid_fields newGrid_of_wf)

lemma reinitEffects_keeps:
  "size_n (fst (reinitEffects prev cur rnd k)) = size_n cur"
  "initialPattern (fst (reinitEffects prev cur rnd k)) = initialPattern cur"
  "temperature (fst (reinitEffects prev cur rnd k)) = temperature cur"
  "coupling (fst (reinitEffects prev cur rnd k)) = coupling cur"
  "externalField (fst (reinitEffects prev cur rnd k)) = externalField cur"
  "annealingRate (fst (reinitEffects prev cur rnd k)) = annealingRate cur"
  "simulationSpeed (fst (reinitEffects prev cur rnd k)) = simulationSpeed cur"
  by (simp_all add: reinitEffects_def Let_def initializeGrid_def)

lemma effectPass_fields:
  "grid (fst (effectPass prev cur gc rnd k)) = grid (fst (reinitEffects prev cur rnd k))"
  "size_n (fst (effectPass prev cur gc rnd k)) = size_n cur"
  "initialPattern (fst (effectPass prev cur gc rnd k)) = initialPattern cur"
  "isPlaying (fst (effectPass prev cur gc rnd k)) = isPlaying (fst (reinitEffects prev cur rnd k))"
  "gridInitialized (fst (effectPass prev cur gc rnd k)) =
     gridInitialized (fst (reinitEffects prev cur rnd k))"
  "temperature (fst (effectPass prev cur gc rnd k)) = temperature cur"
  "coupling (fst (effectPass prev cur gc rnd k)) = coupling cur"
  "externalField (fst (effectPass prev cur gc rnd k)) = externalField cur"
  "annealingRate (fst (effectPass prev cur gc rnd k)) = annealingRate cur"
  "simulationSpeed (fst (effectPass prev cur gc rnd k)) = simulationSpeed cur"
  by (simp_all add: effectPass_def Let_def reinitEffects_keeps)

lemma effectPass_history:
  "magnetizationHistory (fst (effectPass prev cur gc rnd k)) =
     magnetizationHistory (fst (reinitEffects prev cur rnd k)) @
     (if (gc \<or> size_n cur \<noteq> size_n prev \<or> gridInitialized cur \<noteq> gridInitialized prev)
         \<and> \<not> grid_not_ready cur
      then [netMagnetization cur] else [])"
  by (simp add: effectPass_def Let_def)

lemma settle_second:
  "reinitEffects cur (fst (effectPass prev cur gc rnd k)) rnd k' =
     (fst (effectPass prev cur gc rnd k), k')"
  by (simp add: reinitEffects_same effectPass_fields)

lemma settle_fields:
  "grid (fst (settle prev cur gc rnd k)) = grid (fst (reinitEffects prev cur rnd k))"
  "size_n (fst (settle prev cur gc rnd k)) = size_n cur"
  "initialPattern (fst (settle prev cur gc rnd k)) = initialPattern cur"
  "isPlaying (fst (settle prev cur gc rnd k)) = isPlaying (fst (reinitEffects prev cur rnd k))"
  "gridInitialized (fst (settle prev cur gc rnd k)) =
     gridInitialized (fst (reinitEffects prev cur rnd k))"
  "temperature (fst (settle prev cur gc rnd k)) = temperature cur"
  "coupling (fst (settle prev cur gc rnd k)) = coupling cur"
  "externalField (fst (settle prev cur gc rnd k)) = externalField cur"
  "annealingRate (fst (settle prev cur gc rnd k)) = annealingRate cur"
  "simulationSpeed (fst (settle prev cur gc rnd k)) = simulationSpeed cur"
  by (simp_all add: settle_def Let_def effectPass_fields settle_second)

lemma settle_history:
  "magnetizationHistory (fst (settle prev cur gc rnd k)) =
     magnetizationHistory (fst (effectPass prev cur gc rnd k)) @
     (if ((size_n cur \<noteq> size_n prev \<or> initialPattern cur \<noteq> initialPattern prev) \<or>
          gridInitialized (fst (effectPass prev cur gc rnd k)) \<noteq> gridInitialized cur)
         \<and> \<not> grid_not_ready (fst (effectPass prev cur gc rnd k))
      then [netMagnetization (fst (effectPass prev cur gc rnd k))] else [])"
proof -
  let ?p = "effectPass prev cur gc rnd k"
  let ?f = "size_n cur \<noteq> size_n prev \<or> initialPattern cur \<noteq> initialPattern prev"
  have sz: "size_n (fst ?p) = size_n cur" by (rule effectPass_fields(2))
  have same: "reinitEffects cur (fst ?p) rnd (snd ?p) = (fst ?p, snd ?p)" by (rule settle_second)
  have "magnetizationHistory (fst (settle prev cur gc rnd k)) =
      magnetizationHistory (fst (effectPass cur (fst ?p) ?f rnd (snd ?p)))"
    by (simp only: settle_def Let_def)
  also have "\<dots> = magnetizationHistory (fst (reinitEffects cur (fst ?p) rnd (snd ?p))) @
     (if (?f \<or> size_n (fst ?p) \<noteq> size_n cur \<or> gridInitialized (fst ?p) \<noteq> gridInitialized cur)
         \<and> \<not> grid_not_ready (fst ?p)
      then [netMagnetization (fst ?p)] else [])"
    by (rule effectPass_history)
  finally show ?thesis unfolding same sz by simp
qed

lemma effectPass_quiet:
  "size_n cur = size_n prev \<Longrightarrow> initialPattern cur = initialPattern prev
   \<Longrightarrow> gridInitialized cur = gridInitialized prev
   \<Longrightarrow> effectPass prev cur False rnd k = (cur, k)"
  by (simp add: effectPass_def reinitEffects_same)

text \<open>After the two passes no effect has anything left to do.\<close>

lemma settle_settled:
  "effectPass (fst (effectPass prev cur gc rnd k)) (fst (settle prev cur gc rnd k)) False rnd k' =
     (fst (settle prev cur gc rnd k), k')"
proof -
  let ?p = "effectPass prev cur gc rnd k"
  let ?s = "fst (settle prev cur gc rnd k)"
  have sz: "size_n ?s = size_n (fst ?p)" by (simp only: settle_fields(2) effectPass_fields(2))
  have pt: "initialPattern ?s = initialPattern (fst ?p)"
    by (simp only: settle_fields(3) effectPass_fields(3))
  have gi: "gridInitialized ?s = gridInitialized (fst ?p)"
    by (simp only: settle_fields(5) effectPass_fields(5))
  show ?thesis by (rule effectPass_quiet [OF sz pt gi])
qed

lemma netMagnetization_cong:
  assumes "grid a = grid b" "size_n a = size_n b"
  shows "netMagnetization a = netMagnetization b"
  unfolding netMagnetization_def assms ..

lemma grid_not_ready_cong:
  "grid a = grid b \<Longrightarrow> size_n a = size_n b \<Longrightarrow> gridInitialized a = gridInitialized b
   \<Longrightarrow> grid_not_ready a = grid_not_ready b"
  by (auto simp: grid_not_ready_def split: option.splits)

lemma slot_at_defined_range:
  assumes "wf_grid n g" "slot_at g y x \<noteq> None"
  shows "0 \<le> x \<and> x < int n \<and> 0 \<le> y \<and> y < int n"
proof -
  from slot_at_defined_row [OF assms(2)] have y: "0 \<le> y" "y < int (length g)" by simp_all
  from assms(1) have lg: "length g = n" by (simp add: wf_grid_def)
  with y assms(1) have lr: "length (g ! nat y) = n" by (simp add: wf_grid_nth)
  from assms(2) y have "0 \<le> x \<and> x < int (length (g ! nat y))"
    by (auto simp: slot_at_def row_at_def split: if_splits)
  with y lg lr show ?thesis by simp
qed

lemma evolveSystem_wf:
  assumes wf: "wf_grid (size_n st) (grid st)"
  shows "\<exists>st' k'. evolveSystem st rnd k = Inr (st', k') \<and> size_n st' = size_n st \<and>
           wf_grid (size_n st') (grid st')"
proof (cases "grid_not_ready st")
  case True
  with wf show ?thesis by (simp add: evolveSystem_def)
next
  case False
  let ?sites = "accepted_sites (sweep_trials st rnd (size_n st * size_n st) k)"
  have "\<forall>(x, y) \<in> set ?sites. 0 \<le> x \<and> x < int (size_n st) \<and> 0 \<le> y \<and> y < int (size_n st)"
  proof clarify
    fix x y assume "(x, y) \<in> set ?sites"
    then have "((x, y), True) \<in> set (sweep_trials st rnd (size_n st * size_n st) k)"
      by (simp add: accepted_sites_mem)
    from sweep_trials_accepted [OF this] have "slot_at (grid st) y x \<noteq> None" by simp
    from slot_at_defined_range [OF wf this]
    show "0 \<le> x \<and> x < int (size_n st) \<and> 0 \<le> y \<and> y < int (size_n st)" .
  qed
  from apply_flips_wf [OF wf this] obtain g' where
    g': "apply_flips (grid st) ?sites = Inr g'" "wf_grid (size_n st) g'" by blast
  with False show ?thesis by (simp add: evolveSystem_def evolve_loop_trials)
qed

lemma flipSpinsInRadius_wf:
  assumes wf: "wf_grid (size_n st) (grid st)"
  shows "\<exists>st' k'. flipSpinsInRadius st rnd k cx cy r = Inr (st', k') \<and> size_n st' = size_n st \<and>
           wf_grid (size_n st') (grid st')"
proof (cases "grid_not_ready st")
  case True
  with wf show ?thesis by (simp add: flipSpinsInRadius_def)
next
  case False
  let ?sites = "accepted_sites (paint_plan st rnd cx cy r (paint_box st cx cy r) k)"
  have "\<forall>(x, y) \<in> set ?sites. 0 \<le> x \<and> x < int (size_n st) \<and> 0 \<le> y \<and> y < int (size_n st)"
  proof clarify
    fix x y assume "(x, y) \<in> set ?sites"
    then have "((x, y), True) \<in> set (paint_plan st rnd cx cy r (paint_box st cx cy r) k)"
      by (simp add: accepted_sites_mem)
    from paint_plan_in_box [OF this] have "(x, y) \<in> set (paint_box st cx cy r)" by simp
    then show "0 \<le> x \<and> x < int (size_n st) \<and> 0 \<le> y \<and> y < int (size_n st)"
      by (rule paint_box_rows)
  qed
  from apply_flips_wf [OF wf this] obtain g' where
    g': "apply_flips (grid st) ?sites = Inr g'" "wf_grid (size_n st) g'" by blast
  from paint_result [OF False, of rnd cx cy r k] g'
  show ?thesis by auto
qed

lemma commandReset_wf:
  "wf_grid (size_n (fst (commandReset st rnd k))) (grid (fst (commandReset st rnd k)))"
proof -
  let ?h = "handleReset st rnd k"
  have hs: "size_n (fst ?h) = 30" "initialPattern (fst ?h) = ''random''"
    "grid (fst ?h) = newGrid_of (size_n st) ''random'' rnd k"
    by (simp_all add: handleReset_def initializeGrid_def)
  show ?thesis
  proof (cases "size_n (fst ?h) = size_n st \<and> initialPattern (fst ?h) = initialPattern st")
    case True
    then have "reinitEffects st (fst ?h) rnd (snd ?h) = (fst ?h, snd ?h)"
      by (simp add: reinitEffects_same)
    with True hs show ?thesis
      by (simp add: commandReset_def Let_def settle_fields newGrid_of_wf)
  next
    case False
    then have "size_n (fst ?h) \<noteq> size_n st \<or> initialPattern (fst ?h) \<noteq> initialPattern st" by blast
    from reinitEffects_changed(1) [OF this] show ?thesis
      by (simp add: commandReset_def Let_def settle_fields reinitEffects_keeps)
  qed
qed

lemma commandSetPattern_wf:
  "wf_grid (size_n (fst (commandSetPattern p st rnd k))) (grid (fst (commandSetPattern p st rnd k)))"
proof -
  let ?h = "onClickPattern p st rnd k"
  have hs: "size_n (fst ?h) = size_n st" "initialPattern (fst ?h) = p"
    "grid (fst ?h) = newGrid_of (size_n st) p rnd k"
    by (simp_all add: onClickPattern_def initializeGrid_def)
  show ?thesis
  proof (cases "initialPattern (fst ?h) = initialPattern st")
    case True
    with hs have "reinitEffects st (fst ?h) rnd (snd ?h) = (fst ?h, snd ?h)"
      by (simp add: reinitEffects_same)
    with hs show ?thesis
      by (simp add: commandSetPattern_def Let_def settle_fields newGrid_of_wf)
  next
    case False
    then have "size_n (fst ?h) \<noteq> size_n st \<or> initialPattern (fst ?h) \<noteq> initialPattern st" by blast
    from reinitEffects_changed(1) [OF this] show ?thesis
      by (simp add: commandSetPattern_def Let_def settle_fields reinitEffects_keeps)
  qed
qed

lemma commandSetSize_wf:
  assumes "v \<noteq> size_n st"
  shows "wf_grid (size_n (fst (commandSetSize v st rnd k))) (grid (fst (commandSetSize v st rnd k)))"
    and "size_n (fst (commandSetSize v st rnd k)) = v"
proof -
  from assms have "size_n (handleGridSizeChange v st) \<noteq> size_n st \<or>
      initialPattern (handleGridSizeChange v st) \<noteq> initialPattern st"
    by (simp add: handleGridSizeChange_def)
  from reinitEffects_changed(1,3) [OF this]
  show "wf_grid (size_n (fst (commandSetSize v st rnd k))) (grid (fst (commandSetSize v st rnd k)))"
    and "size_n (fst (commandSetSize v st rnd k)) = v"
    by (simp_all add: commandSetSize_def handleGridSizeChange_def settle_fields reinitEffects_keeps)
qed


text \<open>
  Claim C7.  \<^verbatim>\<open>initializeGrid\<close> builds, for every size \<open>N\<close> (so for every \<open>N\<close> from 10 to 69) and
  every pattern, a lattice of exactly \<open>N\<close> rows of \<open>N\<close> cells, each \<open>+1\<close> or \<open>-1\<close>.  After a
  reset, a pattern click, or a change of the size, the lattice has this form for the size
  then configured.  A full sweep and a paint return, keep the size, and turn a lattice of
  this form into a lattice of this form.
\<close>

theorem lattice_well_formed:
  "wf_grid n (grid (fst (initializeGrid n pattern st rnd k))) \<and>
   wf_grid (size_n (fst (commandReset st rnd k))) (grid (fst (commandReset st rnd k))) \<and>
   wf_grid (size_n (fst (commandSetPattern p st rnd k))) (grid (fst (commandSetPattern p st rnd k))) \<and>
   (v \<noteq> size_n st \<longrightarrow>
      size_n (fst (commandSetSize v st rnd k)) = v \<and>
      wf_grid v (grid (fst (commandSetSize v st rnd k)))) \<and>
   (wf_grid (size_n st) (grid st) \<longrightarrow>
      (\<exists>st' k'. evolveSystem st rnd k = Inr (st', k') \<and> size_n st' = size_n st \<and>
         wf_grid (size_n st') (grid st')) \<and>
      (\<exists>st' k'. flipSpinsInRadius st rnd k cx cy r = Inr (st', k') \<and> size_n st' = size_n st \<and>
         wf_grid (size_n st') (grid st')))"
proof (intro conjI impI)
  show "wf_grid n (grid (fst (initializeGrid n pattern st rnd k)))"
    by (simp add: initializeGrid_fields newGrid_of_wf)
  show "wf_grid (size_n (fst (commandReset st rnd k))) (grid (fst (commandReset st rnd k)))"
    by (rule commandReset_wf)
  show "wf_grid (size_n (fst (commandSetPattern p st rnd k))) (grid (fst (commandSetPattern p st rnd k)))"
    by (rule commandSetPattern_wf)
next
  assume v: "v \<noteq> size_n st"
  from commandSetSize_wf [OF v] show "size_n (fst (commandSetSize v st rnd k)) = v" by simp
  from commandSetSize_wf [OF v, of rnd k] show "wf_grid v (grid (fst (commandSetSize v st rnd k)))"
    by simp
next
  assume wf: "wf_grid (size_n st) (grid st)"
  show "\<exists>st' k'. evolveSystem st rnd k = Inr (st', k') \<and> size_n st' = size_n st \<and>
         wf_grid (size_n st') (grid st')"
    by (rule evolveSystem_wf [OF wf])
  show "\<exists>st' k'. flipSpinsInRadius st rnd k cx cy r = Inr (st', k') \<and> size_n st' = size_n st \<and>
         wf_grid (size_n st') (grid st')"
    by (rule flipSpinsInRadius_wf [OF wf])
qed

text \<open>
  The example lattice is well formed and stays so under a sweep and a paint; changing the
  size of the example state from 10 to 20 gives a well-formed lattice of size 20.
\<close>

theorem lattice_well_formed_witness:
  "wf_grid (size_n ex_state) (grid ex_state) \<and> (20::nat) \<noteq> size_n ex_state \<and>
   (\<exists>st' k'. evolveSystem ex_state rnd_half 0 = Inr (st', k') \<and> size_n st' = size_n ex_state \<and>
      wf_grid (size_n st') (grid st')) \<and>
   (\<exists>st' k'. flipSpinsInRadius ex_state rnd_half 0 (9 / 2) 4 1 = Inr (st', k') \<and>
      size_n st' = size_n ex_state \<and> wf_grid (size_n st') (grid st')) \<and>
   wf_grid 20 (grid (fst (commandSetSize 20 ex_state rnd_half 0)))"
proof -
  have wf: "wf_grid (size_n ex_state) (grid ex_state)" using ex_wf by (simp add: ex_state_def)
  have v: "(20::nat) \<noteq> size_n ex_state" by (simp add: ex_state_def)
  from lattice_well_formed [of 10 "''positive''" ex_state rnd_half 0 "''positive''" 20 "9 / 2" 4 1] wf v
  show ?thesis by blast
qed

section \<open>Net magnetization\<close>

lemma foldl_js_add:
  "\<forall>c \<in> set cs. \<exists>v. c = Some (Num v)
   \<Longrightarrow> foldl js_add (Num a) (List.map_filter id cs) = Num (a + sum_list (map cell_value cs))"
proof (induction cs arbitrary: a)
  case Nil
  show ?case by (simp add: List.map_filter_simps)
next
  case (Cons c cs)
  from Cons.prems obtain v where c: "c = Some (Num v)" by auto
  from Cons.prems have rest: "\<forall>c \<in> set cs. \<exists>v. c = Some (Num v)" by simp
  from Cons.IH [OF rest, of "a + v"] c show ?case
    by (simp add: List.map_filter_simps cell_value_def add.assoc)
qed

lemma wf_cells:
  assumes "wf_grid n g" "c \<in> set (concat g)"
  shows "is_spin c"
  using assms by (auto simp: wf_grid_def)

lemma sumSpins_total:
  assumes "wf_grid n g"
  shows "sumSpins g = Num (total_spin g)"
proof -
  have "\<forall>c \<in> set (concat g). \<exists>v. c = Some (Num v)"
    using wf_cells [OF assms] by (auto simp: is_spin_def)
  from foldl_js_add [OF this, of 0] show ?thesis by (simp add: sumSpins_def total_spin_def)
qed

lemma total_spin_rows:
  "total_spin g = sum_list (map (\<lambda>row. sum_list (map cell_value row)) g)"
  by (induction g) (simp_all add: total_spin_def)

lemma abs_sum_list_le:
  "\<forall>x \<in> set xs. \<bar>f x\<bar> \<le> (1::real) \<Longrightarrow> \<bar>sum_list (map f xs)\<bar> \<le> real (length xs)"
proof (induction xs)
  case Nil
  show ?case by simp
next
  case (Cons x xs)
  then have "\<bar>f x\<bar> \<le> 1" and "\<bar>sum_list (map f xs)\<bar> \<le> real (length xs)" by simp_all
  then show ?case by simp
qed

lemma length_concat_rows: "\<forall>row \<in> set g. length row = n \<Longrightarrow> length (concat g) = length g * n"
  by (induction g) simp_all

lemma total_spin_bound:
  assumes "wf_grid n g"
  shows "\<bar>total_spin g\<bar> \<le> real (n * n)"
proof -
  from assms have len: "length (concat g) = n * n"
    using length_concat_rows [of g n] by (simp add: wf_grid_def)
  have "\<forall>c \<in> set (concat g). \<bar>cell_value c\<bar> \<le> 1"
  proof
    fix c assume "c \<in> set (concat g)"
    from wf_cells [OF assms this] have "cell_value c = 1 \<or> cell_value c = - 1"
      by (auto simp: is_spin_def cell_value_def)
    then show "\<bar>cell_value c\<bar> \<le> 1" by auto
  qed
  from abs_sum_list_le [OF this] len show ?thesis by (simp add: total_spin_def)
qed

lemma percent_bound:
  assumes "\<bar>t\<bar> \<le> real m" "0 < m"
  shows "- 100 \<le> t / real m * 100 \<and> t / real m * 100 \<le> 100"
proof -
  define q where "q = t / real m"
  from assms have "\<bar>q\<bar> \<le> 1" by (simp add: q_def)
  then have "- 100 \<le> q * 100 \<and> q * 100 \<le> 100" by (simp add: abs_le_iff)
  then show ?thesis unfolding q_def .
qed

lemma checker_row:
  "sum_list (map (\<lambda>x. if even (x + y) then 1 else - 1) [0..<n]) =
     (if even n then 0 else if even y then 1 else (- 1 :: real))"
  by (induction n) auto

lemma total_positive: "total_spin (newGrid_of n ''positive'' rnd k) = real (n * n)"
  by (simp add: total_spin_rows newGrid_of_def sum_list_replicate cell_value_def o_def)

lemma total_negative: "total_spin (newGrid_of n ''negative'' rnd k) = - real (n * n)"
  by (simp add: total_spin_rows newGrid_of_def sum_list_replicate cell_value_def o_def)

lemma checker_cell:
  "cell_value (if (x + y) mod 2 = 0 then Some (Num 1) else Some (Num (- 1))) =
     (if even (x + y) then 1 else - 1)"
  by (simp add: cell_value_def even_iff_mod_2_eq_zero)

lemma total_checkerboard:
  "total_spin (newGrid_of n ''checkerboard'' rnd k) = (if even n then 0 else 1)"
proof -
  have rows: "total_spin (newGrid_of n ''checkerboard'' rnd k) =
      sum_list (map (\<lambda>y. sum_list (map (\<lambda>x. if even (x + y) then 1 else - 1) [0..<n])) [0..<n])"
    by (simp add: total_spin_rows newGrid_of_def o_def checker_cell del: even_add)
  show ?thesis
  proof (cases "even n")
    case True
    then show ?thesis by (simp add: rows checker_row del: even_add)
  next
    case False
    then have "total_spin (newGrid_of n ''checkerboard'' rnd k) =
        sum_list (map (\<lambda>y. if even (y + 0) then 1 else - 1) [0..<n])"
      by (simp add: rows checker_row del: even_add)
    also have "\<dots> = 1" using False by (simp only: checker_row) simp
    finally show ?thesis using False by simp
  qed
qed

lemma magnetization_ready:
  assumes "\<not> grid_not_ready st" "wf_grid (size_n st) (grid st)"
  shows "magnetization (magnetizationEffect st) =
           Num (total_spin (grid st) / real (size_n st * size_n st) * 100)"
    and "magnetizationHistory (magnetizationEffect st) =
           magnetizationHistory st @ [Num (total_spin (grid st) / real (size_n st * size_n st) * 100)]"
  using assms by (simp_all add: magnetizationEffect_def netMagnetization_def sumSpins_total)

lemma initialized_ready:
  assumes "0 < size_n st"
  shows "\<not> grid_not_ready (fst (initializeGrid (size_n st) p st rnd k))"
    and "wf_grid (size_n (fst (initializeGrid (size_n st) p st rnd k)))
           (grid (fst (initializeGrid (size_n st) p st rnd k)))"
proof -
  let ?s = "fst (initializeGrid (size_n st) p st rnd k)"
  show wf: "wf_grid (size_n ?s) (grid ?s)" by (simp add: initializeGrid_fields newGrid_of_wf)
  from wf_ready [of ?s] wf assms show "\<not> grid_not_ready ?s"
    by (simp add: initializeGrid_fields)
qed


lemma ex_total: "total_spin ex_grid = 96"
  by code_simp

text \<open>
  Claim C8.  On an initialized state with a well-formed lattice the magnetization effect
  stores \<open>(sum of all spins / N N) * 100\<close> and appends it to the history, and this value lies
  between \<open>-100\<close> and \<open>100\<close>.  Right after initialization with a positive size it is exactly
  \<open>100\<close> for the pattern \<open>positive\<close>, exactly \<open>-100\<close> for \<open>negative\<close>, and for \<open>checkerboard\<close>
  exactly \<open>0\<close> when \<open>N\<close> is even and \<open>100 / (N N)\<close>, one surplus up spin, when \<open>N\<close> is odd.
\<close>

theorem magnetization_statistic:
  "(gridInitialized st \<and> 0 < size_n st \<and> wf_grid (size_n st) (grid st) \<longrightarrow>
      magnetization (magnetizationEffect st) =
        Num (total_spin (grid st) / real (size_n st * size_n st) * 100) \<and>
      magnetizationHistory (magnetizationEffect st) =
        magnetizationHistory st @ [Num (total_spin (grid st) / real (size_n st * size_n st) * 100)] \<and>
      - 100 \<le> total_spin (grid st) / real (size_n st * size_n st) * 100 \<and>
      total_spin (grid st) / real (size_n st * size_n st) * 100 \<le> 100) \<and>
   (0 < size_n st \<longrightarrow>
      magnetization (magnetizationEffect (fst (initializeGrid (size_n st) ''positive'' st rnd k))) = Num 100 \<and>
      magnetization (magnetizationEffect (fst (initializeGrid (size_n st) ''negative'' st rnd k))) = Num (- 100) \<and>
      (even (size_n st) \<longrightarrow>
         magnetization (magnetizationEffect (fst (initializeGrid (size_n st) ''checkerboard'' st rnd k))) = Num 0) \<and>
      (odd (size_n st) \<longrightarrow>
         magnetization (magnetizationEffect (fst (initializeGrid (size_n st) ''checkerboard'' st rnd k))) =
           Num (100 / real (size_n st * size_n st))))"
proof (intro conjI impI)
  assume h: "gridInitialized st \<and> 0 < size_n st \<and> wf_grid (size_n st) (grid st)"
  then have wf: "wf_grid (size_n st) (grid st)" and pos: "0 < size_n st * size_n st" by simp_all
  from h have ready: "\<not> grid_not_ready st" by (simp add: wf_ready)
  from magnetization_ready [OF ready wf]
  show "magnetization (magnetizationEffect st) =
        Num (total_spin (grid st) / real (size_n st * size_n st) * 100)"
    and "magnetizationHistory (magnetizationEffect st) =
        magnetizationHistory st @ [Num (total_spin (grid st) / real (size_n st * size_n st) * 100)]"
    by simp_all
  from percent_bound [OF total_spin_bound [OF wf] pos]
  show "- 100 \<le> total_spin (grid st) / real (size_n st * size_n st) * 100"
    and "total_spin (grid st) / real (size_n st * size_n st) * 100 \<le> 100"
    by simp_all
next
  assume pos: "0 < size_n st"
  have m: "magnetization (magnetizationEffect (fst (initializeGrid (size_n st) p st rnd k))) =
      Num (total_spin (newGrid_of (size_n st) p rnd k) / real (size_n st * size_n st) * 100)" for p
    using magnetization_ready(1) [OF initialized_ready [OF pos, of p rnd k]]
    by (simp add: initializeGrid_fields)
  from pos show "magnetization (magnetizationEffect (fst (initializeGrid (size_n st) ''positive'' st rnd k))) = Num 100"
    by (simp add: m total_positive)
  from pos show "magnetization (magnetizationEffect (fst (initializeGrid (size_n st) ''negative'' st rnd k))) = Num (- 100)"
    by (simp add: m total_negative)
  show "magnetization (magnetizationEffect (fst (initializeGrid (size_n st) ''checkerboard'' st rnd k))) = Num 0"
    if "even (size_n st)" using that by (simp add: m total_checkerboard)
  show "magnetization (magnetizationEffect (fst (initializeGrid (size_n st) ''checkerboard'' st rnd k))) =
           Num (100 / real (size_n st * size_n st))"
    if "odd (size_n st)" using that by (simp add: m total_checkerboard)
qed

text \<open>
  The example lattice has 98 up spins and 2 down spins: its magnetization is 96.
  Initializing the example state, of even size 10, gives 100, \<open>-100\<close> and 0.
\<close>

theorem magnetization_statistic_witness:
  "gridInitialized ex_state \<and> 0 < size_n ex_state \<and> wf_grid (size_n ex_state) (grid ex_state) \<and>
   even (size_n ex_state) \<and>
   magnetization (magnetizationEffect ex_state) = Num 96 \<and>
   magnetization (magnetizationEffect (fst (initializeGrid (size_n ex_state) ''positive'' ex_state rnd_half 0))) = Num 100 \<and>
   magnetization (magnetizationEffect (fst (initializeGrid (size_n ex_state) ''negative'' ex_state rnd_half 0))) = Num (- 100) \<and>
   magnetization (magnetizationEffect (fst (initializeGrid (size_n ex_state) ''checkerboard'' ex_state rnd_half 0))) = Num 0"
proof -
  have h: "gridInitialized ex_state" "0 < size_n ex_state" "wf_grid (size_n ex_state) (grid ex_state)"
    "even (size_n ex_state)" "grid ex_state = ex_grid" "size_n ex_state = 10"
    using ex_wf by (simp_all add: ex_state_def)
  from magnetization_statistic [of ex_state rnd_half 0] h
  have "magnetization (magnetizationEffect ex_state) =
        Num (total_spin (grid ex_state) / real (size_n ex_state * size_n ex_state) * 100)"
    and "magnetization (magnetizationEffect (fst (initializeGrid (size_n ex_state) ''positive'' ex_state rnd_half 0))) = Num 100"
    and "magnetization (magnetizationEffect (fst (initializeGrid (size_n ex_state) ''negative'' ex_state rnd_half 0))) = Num (- 100)"
    and "magnetization (magnetizationEffect (fst (initializeGrid (size_n ex_state) ''checkerboard'' ex_state rnd_half 0))) = Num 0"
    by blast+
  with h show ?thesis by (simp add: ex_total)
qed


section \<open>Commands of the controller\<close>



lemma reinitEffects_changed_more:
  assumes "size_n cur \<noteq> size_n prev \<or> initialPattern cur \<noteq> initialPattern prev"
  shows "gridInitialized (fst (reinitEffects prev cur rnd k))"
    and "magnetizationHistory (fst (reinitEffects prev cur rnd k)) = []"
  using assms by (auto simp: reinitEffects_def Let_def initializeGrid_def)


lemma reinitEffects_ready:
  assumes ch: "size_n cur \<noteq> size_n prev \<or> initialPattern cur \<noteq> initialPattern prev"
    and pos: "0 < size_n cur"
  shows "\<not> grid_not_ready (fst (reinitEffects prev cur rnd k))"
  using wf_ready [of "fst (reinitEffects prev cur rnd k)"] pos
    reinitEffects_changed(1,3) [OF ch, of rnd k] reinitEffects_changed_more(1) [OF ch, of rnd k]
  by simp

lemma effectPass_ready:
  "grid_not_ready (fst (effectPass prev cur gc rnd k)) =
     grid_not_ready (fst (reinitEffects prev cur rnd k))"
  by (rule grid_not_ready_cong) (simp_all add: effectPass_fields reinitEffects_keeps)








lemma handleReset_fields:
  "size_n (fst (handleReset st rnd k)) = 30"
  "initialPattern (fst (handleReset st rnd k)) = ''random''"
  "grid (fst (handleReset st rnd k)) = newGrid_of (size_n st) ''random'' rnd k"
  "gridInitialized (fst (handleReset st rnd k))"
  "magnetizationHistory (fst (handleReset st rnd k)) = []"
  by (simp_all add: handleReset_def initializeGrid_def)

text \<open>
  When the effects after a reset have settled, the history is not empty and ends with the
  sample of the lattice then shown.
\<close>

lemma commandReset_history:
  "magnetizationHistory (fst (commandReset st rnd k)) \<noteq> [] \<and>
   last (magnetizationHistory (fst (commandReset st rnd k))) =
     netMagnetization (fst (commandReset st rnd k))"
proof -
  let ?c = "handleReset st rnd k"
  let ?r = "reinitEffects st (fst ?c) rnd (snd ?c)"
  let ?p = "effectPass st (fst ?c) True rnd (snd ?c)"
  let ?s = "settle st (fst ?c) True rnd (snd ?c)"
  have cmd: "commandReset st rnd k = ?s" by (simp add: commandReset_def Let_def)
  have ms: "netMagnetization (fst ?s) = netMagnetization (fst ?r)"
    by (rule netMagnetization_cong) (simp_all add: settle_fields reinitEffects_keeps)
  have mp: "netMagnetization (fst ?p) = netMagnetization (fst ?r)"
    by (rule netMagnetization_cong) (simp_all add: effectPass_fields reinitEffects_keeps)
  have "magnetizationHistory (fst ?s) \<noteq> [] \<and>
        last (magnetizationHistory (fst ?s)) = netMagnetization (fst ?s)"
  proof (cases "size_n (fst ?c) \<noteq> size_n st \<or> initialPattern (fst ?c) \<noteq> initialPattern st")
    case True
    have "0 < size_n (fst ?c)" by (simp add: handleReset_fields)
    from reinitEffects_ready [OF True this] have "\<not> grid_not_ready (fst ?p)"
      by (simp add: effectPass_ready)
    with True have "magnetizationHistory (fst ?s) =
        magnetizationHistory (fst ?p) @ [netMagnetization (fst ?p)]"
      by (simp add: settle_history)
    then show ?thesis by (simp add: ms mp)
  next
    case False
    then have n: "size_n st = 30" by (simp add: handleReset_fields)
    from False have same: "?r = (fst ?c, snd ?c)"
      by (simp add: reinitEffects_same)
    have "\<not> grid_not_ready (fst ?c)"
      using wf_ready [of "fst ?c"] newGrid_of_wf [of 30 "''random''" rnd k]
      by (simp add: handleReset_fields n)
    then have h1: "magnetizationHistory (fst ?p) = [netMagnetization (fst ?c)]"
      by (simp add: effectPass_history same handleReset_fields)
    from False have "magnetizationHistory (fst ?s) = [netMagnetization (fst ?c)]"
      by (simp add: settle_history h1 effectPass_fields same)
    then show ?thesis by (simp add: ms same)
  qed
  then show ?thesis unfolding cmd .
qed




text \<open>
  Claim C9.  The batch of state updates that \<^verbatim>\<open>handleReset\<close> commits sets \<open>N = 30\<close>, \<open>T = 2.0\<close>,
  \<open>J = 1.0\<close>, \<open>H = 0.0\<close>, the annealing rate to 0, the pattern to \<open>random\<close> and the sweep
  interval to 100, stops the simulation and empties the magnetization history.  The
  reinitializing effects that follow keep these parameters and the paused state.  (The
  magnetization effect, which runs after the lattice has changed, then records the first
  sample of the new lattice.)
\<close>

theorem reset_restores_defaults:
  "size_n (fst (handleReset st rnd k)) = 30 \<and>
   temperature (fst (handleReset st rnd k)) = 2 \<and>
   coupling (fst (handleReset st rnd k)) = 1 \<and>
   externalField (fst (handleReset st rnd k)) = 0 \<and>
   annealingRate (fst (handleReset st rnd k)) = 0 \<and>
   initialPattern (fst (handleReset st rnd k)) = ''random'' \<and>
   simulationSpeed (fst (handleReset st rnd k)) = 100 \<and>
   \<not> isPlaying (fst (handleReset st rnd k)) \<and>
   magnetizationHistory (fst (handleReset st rnd k)) = [] \<and>
   size_n (fst (commandReset st rnd k)) = 30 \<and>
   temperature (fst (commandReset st rnd k)) = 2 \<and>
   coupling (fst (commandReset st rnd k)) = 1 \<and>
   externalField (fst (commandReset st rnd k)) = 0 \<and>
   annealingRate (fst (commandReset st rnd k)) = 0 \<and>
   initialPattern (fst (commandReset st rnd k)) = ''random'' \<and>
   simulationSpeed (fst (commandReset st rnd k)) = 100 \<and>
   \<not> isPlaying (fst (commandReset st rnd k))"
proof -
  have h: "size_n (fst (handleReset st rnd k)) = 30 \<and>
   temperature (fst (handleReset st rnd k)) = 2 \<and>
   coupling (fst (handleReset st rnd k)) = 1 \<and>
   externalField (fst (handleReset st rnd k)) = 0 \<and>
   annealingRate (fst (handleReset st rnd k)) = 0 \<and>
   initialPattern (fst (handleReset st rnd k)) = ''random'' \<and>
   simulationSpeed (fst (handleReset st rnd k)) = 100 \<and>
   \<not> isPlaying (fst (handleReset st rnd k)) \<and>
   magnetizationHistory (fst (handleReset st rnd k)) = []"
    by (simp add: handleReset_def initializeGrid_def)
  have c: "size_n (fst (commandReset st rnd k)) = 30 \<and>
   temperature (fst (commandReset st rnd k)) = 2 \<and>
   coupling (fst (commandReset st rnd k)) = 1 \<and>
   externalField (fst (commandReset st rnd k)) = 0 \<and>
   annealingRate (fst (commandReset st rnd k)) = 0 \<and>
   initialPattern (fst (commandReset st rnd k)) = ''random'' \<and>
   simulationSpeed (fst (commandReset st rnd k)) = 100 \<and>
   \<not> isPlaying (fst (commandReset st rnd k))"
    by (simp add: commandReset_def settle_fields handleReset_def initializeGrid_def
          reinitEffects_def Let_def)
  from h c show ?thesis by simp
qed

text \<open>Reset of the running example state: the size returns from 10 to 30 and the run stops.\<close>

theorem reset_restores_defaults_witness:
  "isPlaying ex_playing \<and> size_n ex_playing = 10 \<and>
   size_n (fst (handleReset ex_playing rnd_half 0)) = 30 \<and>
   \<not> isPlaying (fst (handleReset ex_playing rnd_half 0)) \<and>
   magnetizationHistory (fst (handleReset ex_playing rnd_half 0)) = [] \<and>
   size_n (fst (commandReset ex_playing rnd_half 0)) = 30 \<and>
   \<not> isPlaying (fst (commandReset ex_playing rnd_half 0))"
  using reset_restores_defaults [of ex_playing rnd_half 0]
  by (simp add: ex_playing_def ex_state_def)

section \<open>The acceptance rule\<close>

lemma boltzmann_range:
  assumes "0 < (d::real)"
  shows "0 < exp (- d / max 0.1 T) \<and> exp (- d / max 0.1 T) < 1"
proof -
  have "0 < max 0.1 T" by simp
  with assms have "- d / max 0.1 T < 0" by (simp add: divide_neg_pos)
  then show ?thesis by simp
qed

lemma unconditional_iff:
  "(\<forall>u. 0 \<le> u \<and> u < 1 \<longrightarrow> metropolis_accept d u T) \<longleftrightarrow> d \<le> 0"
proof
  assume all: "\<forall>u. 0 \<le> u \<and> u < 1 \<longrightarrow> metropolis_accept d u T"
  show "d \<le> 0"
  proof (rule ccontr)
    assume "\<not> d \<le> 0"
    then have pos: "0 < d" by simp
    let ?b = "exp (- d / max 0.1 T)"
    from boltzmann_range [OF pos, of T] have "0 \<le> ?b \<and> ?b < 1" by simp
    with all have "metropolis_accept d ?b T" by blast
    with pos show False by (simp add: metropolis_accept_def)
  qed
next
  assume "d \<le> 0"
  then show "\<forall>u. 0 \<le> u \<and> u < 1 \<longrightarrow> metropolis_accept d u T"
    by (simp add: metropolis_accept_def)
qed

lemma evolve_trial_rule:
  assumes "calculateDeltaE st x y = Num d" "trial_site st rnd k = (x, y)" "slot_at (grid st) y x \<noteq> None"
  shows "evolve_trial st rnd (g, k) =
           (if metropolis_accept d (rnd (k + 2)) (temperature st)
            then map_sum id (\<lambda>g'. (g', if d \<le> 0 then k + 2 else k + 3)) (flip_at g y x)
            else Inr (g, k + 3))"
  using assms
  by (auto simp: evolve_trial_def trial_site_def metropolis_accept_def Let_def)

lemma paint_cell_rule:
  assumes "calculateDeltaE st x y = Num d" "in_shape (drawMode st) cx cy r x y"
  shows "paint_cell st rnd cx cy r y x (g, k) =
           (if metropolis_accept d (rnd k) (temperature st)
            then map_sum id (\<lambda>g'. (g', if d \<le> 0 then k else k + 1)) (flip_at g y x)
            else Inr (g, k + 1))"
  using assms
  by (auto simp: paint_cell_def metropolis_accept_def Let_def)

text \<open>
  Claim C4.  Where the energy change of the candidate is the number \<open>d\<close>, the trial of the
  full sweep and the cell step of the paint flip the cell exactly when
  \<open>d \<le> 0 \<or> u < exp (- d / max 0.1 T)\<close>, where \<open>T\<close> is the configured temperature and \<open>u\<close> is
  the next unread draw; the draw is read, and the position moves past it, exactly when
  \<open>d > 0\<close>.  The flip is accepted for every draw in \<open>[0, 1)\<close> if and only if \<open>d \<le> 0\<close>: for
  \<open>d > 0\<close> the Boltzmann factor lies strictly between 0 and 1.  The temperature enters only
  through \<open>max 0.1 T\<close>, so every \<open>T \<le> 0.1\<close> gives the rule of \<open>T = 0.1\<close>.
\<close>

theorem metropolis_acceptance:
  assumes dE: "calculateDeltaE st x y = Num d"
  shows "(trial_site st rnd k = (x, y) \<and> slot_at (grid st) y x \<noteq> None \<longrightarrow>
            evolve_trial st rnd (g, k) =
              (if metropolis_accept d (rnd (k + 2)) (temperature st)
               then map_sum id (\<lambda>g'. (g', if d \<le> 0 then k + 2 else k + 3)) (flip_at g y x)
               else Inr (g, k + 3))) \<and>
         (in_shape (drawMode st) cx cy r x y \<longrightarrow>
            paint_cell st rnd cx cy r y x (g, k) =
              (if metropolis_accept d (rnd k) (temperature st)
               then map_sum id (\<lambda>g'. (g', if d \<le> 0 then k else k + 1)) (flip_at g y x)
               else Inr (g, k + 1))) \<and>
         (metropolis_accept d u T \<longleftrightarrow> d \<le> 0 \<or> u < exp (- d / max 0.1 T)) \<and>
         ((\<forall>u. 0 \<le> u \<and> u < 1 \<longrightarrow> metropolis_accept d u T) \<longleftrightarrow> d \<le> 0) \<and>
         (0 < d \<longrightarrow> 0 < exp (- d / max 0.1 T) \<and> exp (- d / max 0.1 T) < 1) \<and>
         (T \<le> 0.1 \<longrightarrow> metropolis_accept d u T = metropolis_accept d u 0.1)"
proof (intro conjI impI)
  assume "trial_site st rnd k = (x, y) \<and> slot_at (grid st) y x \<noteq> None"
  then show "evolve_trial st rnd (g, k) =
              (if metropolis_accept d (rnd (k + 2)) (temperature st)
               then map_sum id (\<lambda>g'. (g', if d \<le> 0 then k + 2 else k + 3)) (flip_at g y x)
               else Inr (g, k + 3))"
    using evolve_trial_rule [OF dE] by blast
next
  assume "in_shape (drawMode st) cx cy r x y"
  then show "paint_cell st rnd cx cy r y x (g, k) =
              (if metropolis_accept d (rnd k) (temperature st)
               then map_sum id (\<lambda>g'. (g', if d \<le> 0 then k else k + 1)) (flip_at g y x)
               else Inr (g, k + 1))"
    by (rule paint_cell_rule [OF dE])
next
  show "metropolis_accept d u T \<longleftrightarrow> d \<le> 0 \<or> u < exp (- d / max 0.1 T)"
    by (simp add: metropolis_accept_def)
  show "(\<forall>u. 0 \<le> u \<and> u < 1 \<longrightarrow> metropolis_accept d u T) \<longleftrightarrow> d \<le> 0"
    by (rule unconditional_iff)
next
  assume "0 < d"
  then show "0 < exp (- d / max 0.1 T)" and "exp (- d / max 0.1 T) < 1"
    using boltzmann_range [of d T] by simp_all
next
  assume "T \<le> 0.1"
  then have "max 0.1 T = 0.1" by simp
  then show "metropolis_accept d u T = metropolis_accept d u 0.1"
    by (simp add: metropolis_accept_def)
qed

text \<open>
  On the example state the draws \<open>1/2\<close> select the site \<open>(5, 5)\<close>, an up spin among up
  spins: the energy change is 8, the draw \<open>1/2\<close> is not below \<open>exp (- 8 / 2)\<close>, and neither the
  sweep trial nor a paint centred there flips the cell; each has read one more draw.
\<close>

theorem metropolis_acceptance_witness:
  "calculateDeltaE ex_state 5 5 = Num 8 \<and> trial_site ex_state rnd_half 0 = (5, 5) \<and>
   slot_at (grid ex_state) 5 5 \<noteq> None \<and> in_shape (drawMode ex_state) 5 5 1 5 5 \<and>
   evolve_trial ex_state rnd_half (ex_grid, 0) = Inr (ex_grid, 3) \<and>
   paint_cell ex_state rnd_half 5 5 1 5 5 (ex_grid, 0) = Inr (ex_grid, 1)"
proof -
  have site: "trial_site ex_state rnd_half 0 = (5, 5)"
    by (simp add: trial_site_def rnd_half_def ex_state_def)
  have slot: "slot_at (grid ex_state) 5 5 \<noteq> None"
    by (simp add: slot_at_def row_at_def ex_state_def ex_grid_def)
  have shape: "in_shape (drawMode ex_state) 5 5 1 5 5"
    by (simp add: in_shape_def ex_state_def)
  have rej: "\<not> metropolis_accept 8 (rnd_half j) (temperature ex_state)" for j
    using exp_minus_four by (simp add: metropolis_accept_def rnd_half_def ex_state_def)
  from metropolis_acceptance [OF ex_dE_55, of rnd_half 0 ex_grid 5 5 1 0 2] site slot shape rej
  have "evolve_trial ex_state rnd_half (ex_grid, 0) = Inr (ex_grid, 3)"
    and "paint_cell ex_state rnd_half 5 5 1 5 5 (ex_grid, 0) = Inr (ex_grid, 1)"
    by simp_all
  with ex_dE_55 site slot shape show ?thesis by simp
qed

lemma guard_zero:
  assumes "\<not> gridInitialized st \<or> length (grid st) \<noteq> size_n st \<or>
           (\<exists>row. row_at (grid st) 0 = Some row \<and> length row \<noteq> size_n st) \<or>
           slot_at (grid st) y x = None"
  shows "calculateDeltaE st x y = Num 0"
  using assms by (auto simp: calculateDeltaE_def grid_not_ready_def split: option.splits)

text \<open>
  Claim C10.  \<^verbatim>\<open>calculateDeltaE\<close> returns a number for every state and every pair of integers:
  each array read in it is guarded, so the embedding needs no error result for it.  Whenever
  the lattice is not initialized, or its number of rows or the length of its first row
  differs from the configured size (the dimensions the guard measures), or the cell
  \<open>(x, y)\<close> is undefined, the result is 0 and nothing is signalled.  Since 0 is accepted
  whatever the draw and the temperature, a caller that evaluates such a site writes the
  flip without reading a draw: the cell step of the paint does so for a cell in the shape,
  and the trial of the sweep does so when the cell is defined.
\<close>

theorem calculateDeltaE_guard_silent:
  assumes "\<not> gridInitialized st \<or> length (grid st) \<noteq> size_n st \<or>
           (\<exists>row. row_at (grid st) 0 = Some row \<and> length row \<noteq> size_n st) \<or>
           slot_at (grid st) y x = None"
  shows "calculateDeltaE st x y = Num 0 \<and>
         (\<forall>u T. metropolis_accept 0 u T) \<and>
         (in_shape (drawMode st) cx cy r x y \<longrightarrow>
            paint_cell st rnd cx cy r y x (g, k) = map_sum id (\<lambda>g'. (g', k)) (flip_at g y x)) \<and>
         (trial_site st rnd k = (x, y) \<and> slot_at (grid st) y x \<noteq> None \<longrightarrow>
            evolve_trial st rnd (g, k) = map_sum id (\<lambda>g'. (g', k + 2)) (flip_at g y x))"
proof -
  have z: "calculateDeltaE st x y = Num 0" by (rule guard_zero [OF assms])
  have acc: "\<forall>u T. metropolis_accept 0 u T" by (simp add: metropolis_accept_def)
  have p: "in_shape (drawMode st) cx cy r x y \<longrightarrow>
            paint_cell st rnd cx cy r y x (g, k) = map_sum id (\<lambda>g'. (g', k)) (flip_at g y x)"
    using paint_cell_rule [OF z, of cx cy r rnd g k] acc by simp
  have e: "trial_site st rnd k = (x, y) \<and> slot_at (grid st) y x \<noteq> None \<longrightarrow>
            evolve_trial st rnd (g, k) = map_sum id (\<lambda>g'. (g', k + 2)) (flip_at g y x)"
    using evolve_trial_rule [OF z, of rnd k g] acc by simp
  from z acc p e show ?thesis by blast
qed

text \<open>
  The example lattice in a state not yet marked initialized: the energy change at \<open>(4, 4)\<close>
  reads 0 instead of \<open>-8\<close>, and the paint step flips the cell without a draw.
\<close>

theorem calculateDeltaE_guard_silent_witness:
  "\<not> gridInitialized ex_uninit \<and> in_shape (drawMode ex_uninit) (9 / 2) 4 1 4 4 \<and>
   calculateDeltaE ex_uninit 4 4 = Num 0 \<and>
   paint_cell ex_uninit rnd_half (9 / 2) 4 1 4 4 (ex_grid, 0) =
     map_sum id (\<lambda>g'. (g', 0)) (flip_at ex_grid 4 4)"
proof -
  have u: "\<not> gridInitialized ex_uninit" by (simp add: ex_uninit_def ex_state_def)
  have s: "in_shape (drawMode ex_uninit) (9 / 2) 4 1 4 4"
    by (simp add: in_shape_def ex_uninit_def ex_state_def)
  from calculateDeltaE_guard_silent [of ex_uninit 4 4 "9 / 2" 4 1 rnd_half ex_grid 0] u s
  show ?thesis by simp
qed

end
